theory Spec2Isabelle
  imports Main "HOL-Library.Word" "HOL-Library.Multiset"
begin

section \<open>Data model of the Reddit engine\<close>

text \<open>
  Go's \<open>int\<close> is a 64-bit two's complement integer on the platforms the program targets:
  \<open>+\<close>, \<open>-\<close> and unary minus wrap around, comparisons read the value with \<open>sint\<close>.
  A \<open>time.Time\<close> is an instant on a linear time line; \<open>Before\<close> is \<open><\<close> on it.
  A \<open>*Post\<close> is an address into the store of posts: the same post is referenced from
  the engine's \<open>posts\<close> map and from its subreddit's \<open>Posts\<close> slice.
\<close>

type_synonym go_int = "64 word"
type_synonym time = int
type_synonym addr = nat

record User =
  Username :: string
  Password :: string
  Karma :: go_int
  CreatedAt :: time
  Subreddits :: "string set"

datatype Comment = Comment
  (ID: string) (Content: string) (Author: string) (ParentID: string)
  (CreatedAt: time) (Votes: go_int) (Children: "Comment list")

record Post =
  ID :: string
  Title :: string
  Content :: string
  Author :: string
  Subreddit :: string
  CreatedAt :: time
  Votes :: go_int
  Comments :: "Comment list"

record Subreddit =
  Name :: string
  Description :: string
  Creator :: string
  CreatedAt :: time
  Posts :: "addr list"
  Members :: "string set"

datatype DirectMessage = DirectMessage
  (ID: string) (From: string) (To: string) (Content: string)
  (CreatedAt: time) (Replies: "DirectMessage list")

text \<open>
  The engine. Users, subreddits and inboxes are only ever reached through their map, so
  the maps hold them by value. Posts live in \<open>postHeap\<close>; \<open>nextPost\<close> is the address
  the next \<open>&Post{...}\<close> allocates.
\<close>

record RedditEngine =
  users :: "string \<rightharpoonup> User"
  subreddits :: "string \<rightharpoonup> Subreddit"
  posts :: "string \<rightharpoonup> addr"
  directMessages :: "string \<rightharpoonup> DirectMessage list"
  postHeap :: "addr \<Rightarrow> Post"
  nextPost :: addr

text \<open>
  An error is the message of \<open>fmt.Errorf\<close>; a nil dereference and an index out of
  range are Go's run-time panics.
\<close>

datatype error = Errorf string | NilDereference | IndexOutOfRange

text \<open>
  The specification's names for the error kinds; the program tells them apart by the
  message text only.
\<close>

definition NotFound :: "string \<Rightarrow> error" where
  "NotFound kind = Errorf (kind @ '' not found'')"

definition AlreadyExists :: "string \<Rightarrow> error" where
  "AlreadyExists kind = Errorf (kind @ '' already exists'')"

subsection \<open>\<open>fmt.Sprintf\<close> with \<open>%d\<close>\<close>

fun digits10 :: "nat \<Rightarrow> string" where
  "digits10 n =
     (if n < 10 then [char_of (48 + n)]
      else digits10 (n div 10) @ [char_of (48 + n mod 10)])"

declare digits10.simps [simp del]

definition fmt_d :: "int \<Rightarrow> string" where
  "fmt_d i = (if i < 0 then CHR ''-'' # digits10 (nat (- i)) else digits10 (nat i))"

section \<open>The engine's operations\<close>

text \<open>
  Every operation that changes the engine returns its result and the engine afterwards.
  The two clock readings of an operation (\<open>time.Now().UnixNano()\<close> for the identifier,
  \<open>time.Now()\<close> for the creation time) are inputs \<open>idn\<close> and \<open>now\<close>. The order in
  which \<open>range\<close> visits the keys of a map is an input as well: a list of the keys.
  Calls are taken one at a time, each from start to end; the locks are not modelled.
\<close>

definition zeroPost :: Post where
  "zeroPost = \<lparr>Post.ID = [], Title = [], Post.Content = [], Post.Author = [],
     Subreddit = [], Post.CreatedAt = 0, Post.Votes = 0, Comments = []\<rparr>"

definition NewRedditEngine :: RedditEngine where
  "NewRedditEngine = \<lparr>users = Map.empty, subreddits = Map.empty, posts = Map.empty,
     directMessages = Map.empty, postHeap = (\<lambda>_. zeroPost), nextPost = 0\<rparr>"

definition RegisterUser ::
  "RedditEngine \<Rightarrow> string \<Rightarrow> string \<Rightarrow> time \<Rightarrow> (error + unit) \<times> RedditEngine" where
  "RegisterUser e username password now =
     (case users e username of
        Some _ \<Rightarrow> (Inl (Errorf ''user already exists''), e)
      | None \<Rightarrow>
          (Inr (), e\<lparr>users := (users e)(username \<mapsto>
             \<lparr>Username = username, Password = password, Karma = 0,
              User.CreatedAt = now, Subreddits = {}\<rparr>)\<rparr>))"

definition CreateSubreddit ::
  "RedditEngine \<Rightarrow> string \<Rightarrow> string \<Rightarrow> string \<Rightarrow> time \<Rightarrow> (error + unit) \<times> RedditEngine" where
  "CreateSubreddit e name description creator now =
     (case subreddits e name of
        Some _ \<Rightarrow> (Inl (Errorf ''subreddit already exists''), e)
      | None \<Rightarrow>
          (Inr (), e\<lparr>subreddits := (subreddits e)(name \<mapsto>
             \<lparr>Name = name, Description = description, Creator = creator,
              Subreddit.CreatedAt = now, Posts = [], Members = {}\<rparr>)\<rparr>))"

definition JoinSubreddit ::
  "RedditEngine \<Rightarrow> string \<Rightarrow> string \<Rightarrow> (error + unit) \<times> RedditEngine" where
  "JoinSubreddit e username subredditName =
     (case users e username of
        None \<Rightarrow> (Inl (Errorf ''user not found''), e)
      | Some user \<Rightarrow>
          (case subreddits e subredditName of
             None \<Rightarrow> (Inl (Errorf ''subreddit not found''), e)
           | Some subreddit \<Rightarrow>
               (Inr (), e\<lparr>
                  users := (users e)(username \<mapsto>
                    user\<lparr>Subreddits := insert subredditName (Subreddits user)\<rparr>),
                  subreddits := (subreddits e)(subredditName \<mapsto>
                    subreddit\<lparr>Members := insert username (Members subreddit)\<rparr>)\<rparr>)))"

definition LeaveSubreddit ::
  "RedditEngine \<Rightarrow> string \<Rightarrow> string \<Rightarrow> (error + unit) \<times> RedditEngine" where
  "LeaveSubreddit e username subredditName =
     (case users e username of
        None \<Rightarrow> (Inl (Errorf ''user not found''), e)
      | Some user \<Rightarrow>
          (case subreddits e subredditName of
             None \<Rightarrow> (Inl (Errorf ''subreddit not found''), e)
           | Some subreddit \<Rightarrow>
               (Inr (), e\<lparr>
                  users := (users e)(username \<mapsto>
                    user\<lparr>Subreddits := Subreddits user - {subredditName}\<rparr>),
                  subreddits := (subreddits e)(subredditName \<mapsto>
                    subreddit\<lparr>Members := Members subreddit - {username}\<rparr>)\<rparr>)))"

definition GetComments :: "RedditEngine \<Rightarrow> string \<Rightarrow> error + Comment list" where
  "GetComments e postID =
     (case posts e postID of
        None \<Rightarrow> Inl (Errorf ''post not found'')
      | Some a \<Rightarrow> Inr (Comments (postHeap e a)))"

definition CreatePost ::
  "RedditEngine \<Rightarrow> string \<Rightarrow> string \<Rightarrow> string \<Rightarrow> string \<Rightarrow> int \<Rightarrow> time
     \<Rightarrow> (error + addr) \<times> RedditEngine" where
  "CreatePost e title content author subredditName idn now =
     (case subreddits e subredditName of
        None \<Rightarrow> (Inl (Errorf ''subreddit not found''), e)
      | Some subreddit \<Rightarrow>
          (let a = nextPost e;
               post = \<lparr>Post.ID = ''post_'' @ fmt_d idn, Title = title,
                       Post.Content = content, Post.Author = author,
                       Subreddit = subredditName, Post.CreatedAt = now,
                       Post.Votes = 0, Comments = []\<rparr>
           in (Inr a, e\<lparr>
                 posts := (posts e)(Post.ID post \<mapsto> a),
                 subreddits := (subreddits e)(subredditName \<mapsto>
                   subreddit\<lparr>Posts := Posts subreddit @ [a]\<rparr>),
                 postHeap := (postHeap e)(a := post),
                 nextPost := Suc a\<rparr>)))"

subsection \<open>The comment tree\<close>

text \<open>
  A \<open>*Comment\<close> inside a post's tree is the path to the node: the index among the
  top-level comments, then the index among the children, and so on. \<open>findComment\<close>
  walks the slice in order and descends into a comment's children before it goes on to
  the comment's next sibling.
\<close>

fun findComment :: "Comment list \<Rightarrow> string \<Rightarrow> nat list option" where
  "findComment [] commentID = None"
| "findComment (Comment i ct au pa t v ch # cs) commentID =
     (if i = commentID then Some [0]
      else case findComment ch commentID of
             Some p \<Rightarrow> Some (0 # p)
           | None \<Rightarrow>
               (case findComment cs commentID of
                  Some (k # p) \<Rightarrow> Some (Suc k # p)
                | _ \<Rightarrow> None))"

text \<open>The node a path points to.\<close>

fun nodeAt :: "Comment list \<Rightarrow> nat list \<Rightarrow> Comment option" where
  "nodeAt cs [] = None"
| "nodeAt cs [k] = (if k < length cs then Some (cs ! k) else None)"
| "nodeAt cs (k # p) = (if k < length cs then nodeAt (Comment.Children (cs ! k)) p else None)"

text \<open>\<open>parent.Children = append(parent.Children, comment)\<close> through the pointer.\<close>

fun setChildren :: "Comment \<Rightarrow> Comment list \<Rightarrow> Comment" where
  "setChildren (Comment i ct au pa t v ch) ch' = Comment i ct au pa t v ch'"

fun appendChild :: "Comment list \<Rightarrow> nat list \<Rightarrow> Comment \<Rightarrow> Comment list" where
  "appendChild cs [] new = cs"
| "appendChild cs [k] new =
     (if k < length cs
      then cs[k := setChildren (cs ! k) (Comment.Children (cs ! k) @ [new])]
      else cs)"
| "appendChild cs (k # p) new =
     (if k < length cs
      then cs[k := setChildren (cs ! k) (appendChild (Comment.Children (cs ! k)) p new)]
      else cs)"

definition AddComment ::
  "RedditEngine \<Rightarrow> string \<Rightarrow> string \<Rightarrow> string \<Rightarrow> string \<Rightarrow> int \<Rightarrow> time
     \<Rightarrow> (error + Comment) \<times> RedditEngine" where
  "AddComment e content author postID parentCommentID idn now =
     (case posts e postID of
        None \<Rightarrow> (Inl (Errorf ''post not found''), e)
      | Some a \<Rightarrow>
          (let post = postHeap e a;
               comment = Comment (''comment_'' @ fmt_d idn) content author
                           parentCommentID now 0 []
           in if parentCommentID = [] then
                (Inr comment, e\<lparr>postHeap := (postHeap e)(a :=
                   post\<lparr>Comments := Comments post @ [comment]\<rparr>)\<rparr>)
              else
                (case findComment (Comments post) parentCommentID of
                   None \<Rightarrow> (Inl (Errorf ''parent comment not found''), e)
                 | Some parent \<Rightarrow>
                     (Inr comment, e\<lparr>postHeap := (postHeap e)(a :=
                        post\<lparr>Comments := appendChild (Comments post) parent comment\<rparr>)\<rparr>))))"

subsection \<open>Voting and karma\<close>

definition updateKarma :: "RedditEngine \<Rightarrow> string \<Rightarrow> go_int \<Rightarrow> RedditEngine" where
  "updateKarma e username val =
     (case users e username of
        Some user \<Rightarrow> e\<lparr>users := (users e)(username \<mapsto> user\<lparr>Karma := Karma user + val\<rparr>)\<rparr>
      | None \<Rightarrow> e)"

definition VotePost ::
  "RedditEngine \<Rightarrow> string \<Rightarrow> bool \<Rightarrow> (error + unit) \<times> RedditEngine" where
  "VotePost e postID upvote =
     (case posts e postID of
        None \<Rightarrow> (Inl (Errorf ''post not found''), e)
      | Some a \<Rightarrow>
          (let post = postHeap e a in
           if upvote then
             (Inr (), updateKarma
                (e\<lparr>postHeap := (postHeap e)(a := post\<lparr>Post.Votes := Post.Votes post + 2\<rparr>)\<rparr>)
                (Post.Author post) 1)
           else
             (Inr (), updateKarma
                (e\<lparr>postHeap := (postHeap e)(a := post\<lparr>Post.Votes := Post.Votes post - 1\<rparr>)\<rparr>)
                (Post.Author post) (- 1))))"

subsection \<open>The feed\<close>

text \<open>
  \<open>sortPosts\<close> is a bubble sort over the slice of post pointers. The inner loop runs
  \<open>j\<close> from 0 while \<open>j < n-i-1\<close>; the outer loop runs \<open>i\<close> from 0 while
  \<open>i < n-1\<close>. Both bounds are Go \<open>int\<close>s and may be negative, so they are
  computed in \<open>int\<close> here. Reading \<open>posts[j+1]\<close> beyond the end panics.
\<close>

definition swapAdjacent :: "'a list \<Rightarrow> nat \<Rightarrow> 'a list" where
  "swapAdjacent xs j = xs[j := xs ! (j + 1), j + 1 := xs ! j]"

function sortPosts_inner ::
  "(addr \<Rightarrow> Post) \<Rightarrow> nat \<Rightarrow> int \<Rightarrow> addr list \<Rightarrow> error + addr list" where
  "sortPosts_inner h j bound ps =
     (if int j < bound then
        (if j + 1 < length ps then
           sortPosts_inner h (j + 1) bound
             (if Post.CreatedAt (h (ps ! j)) < Post.CreatedAt (h (ps ! (j + 1)))
              then swapAdjacent ps j else ps)
         else Inl IndexOutOfRange)
      else Inr ps)"
  by pat_completeness auto
termination
  by (relation "measure (\<lambda>(h, j, bound, ps). nat (bound - int j))") auto

function sortPosts_outer ::
  "(addr \<Rightarrow> Post) \<Rightarrow> nat \<Rightarrow> nat \<Rightarrow> addr list \<Rightarrow> error + addr list" where
  "sortPosts_outer h i n ps =
     (if int i < int n - 1 then
        (case sortPosts_inner h 0 (int n - int i - 1) ps of
           Inl err \<Rightarrow> Inl err
         | Inr ps' \<Rightarrow> sortPosts_outer h (i + 1) n ps')
      else Inr ps)"
  by pat_completeness auto
termination
  by (relation "measure (\<lambda>(h, i, n, ps). n - i)") auto

declare sortPosts_inner.simps [simp del]

declare sortPosts_outer.simps [simp del]

definition sortPosts :: "(addr \<Rightarrow> Post) \<Rightarrow> addr list \<Rightarrow> error + addr list" where
  "sortPosts h ps = sortPosts_outer h 0 (length ps) ps"

text \<open>
  The loop of \<open>GetUserFeed\<close> over the names \<open>range\<close> yields. A name that is not a
  key of \<open>subreddits\<close> reads a nil \<open>*Subreddit\<close>, and locking it panics.
\<close>

fun collectFeed :: "RedditEngine \<Rightarrow> string list \<Rightarrow> addr list \<Rightarrow> error + addr list" where
  "collectFeed e [] feed = Inr feed"
| "collectFeed e (subredditName # rest) feed =
     (case subreddits e subredditName of
        None \<Rightarrow> Inl NilDereference
      | Some subreddit \<Rightarrow> collectFeed e rest (feed @ Posts subreddit))"

definition GetUserFeed :: "string list \<Rightarrow> RedditEngine \<Rightarrow> string \<Rightarrow> error + addr list" where
  "GetUserFeed order e username =
     (case users e username of
        None \<Rightarrow> Inl (Errorf ''user not found'')
      | Some user \<Rightarrow>
          (case collectFeed e order [] of
             Inl err \<Rightarrow> Inl err
           | Inr feed \<Rightarrow> sortPosts (postHeap e) feed))"

subsection \<open>Direct messages\<close>

definition SendDirectMessage ::
  "RedditEngine \<Rightarrow> string \<Rightarrow> string \<Rightarrow> string \<Rightarrow> int \<Rightarrow> time
     \<Rightarrow> (error + DirectMessage) \<times> RedditEngine" where
  "SendDirectMessage e from to content idn now =
     (if users e from = None then (Inl (Errorf ''sender not found''), e)
      else if users e to = None then (Inl (Errorf ''recipient not found''), e)
      else
        (let dm = DirectMessage (''dm_'' @ fmt_d idn) from to content now [];
             inbox = (case directMessages e to of None \<Rightarrow> [] | Some ms \<Rightarrow> ms)
         in (Inr dm, e\<lparr>directMessages := (directMessages e)(to \<mapsto> inbox @ [dm])\<rparr>)))"

text \<open>
  A \<open>*DirectMessage\<close> found by the scan is the inbox's key and the index in the inbox.
  The \<open>break\<close> leaves the inner loop only: the outer loop goes on over the remaining
  inboxes, and a later inbox with a match overwrites \<open>originalDM\<close>. A pointer the scan
  returns always points into an inbox, so the nil case of \<open>ReplyToDirectMessage\<close> below
  is never taken.
\<close>

fun scanInbox :: "DirectMessage list \<Rightarrow> string \<Rightarrow> nat option" where
  "scanInbox [] originalMsgID = None"
| "scanInbox (dm # rest) originalMsgID =
     (if DirectMessage.ID dm = originalMsgID then Some 0
      else map_option Suc (scanInbox rest originalMsgID))"

fun scanInboxes ::
  "RedditEngine \<Rightarrow> string list \<Rightarrow> string \<Rightarrow> (string \<times> nat) option
     \<Rightarrow> (string \<times> nat) option" where
  "scanInboxes e [] originalMsgID originalDM = originalDM"
| "scanInboxes e (k # ks) originalMsgID originalDM =
     scanInboxes e ks originalMsgID
       (case directMessages e k of
          None \<Rightarrow> originalDM
        | Some messages \<Rightarrow>
            (case scanInbox messages originalMsgID of
               None \<Rightarrow> originalDM
             | Some i \<Rightarrow> Some (k, i)))"

fun addReply :: "DirectMessage \<Rightarrow> DirectMessage \<Rightarrow> DirectMessage" where
  "addReply (DirectMessage i f t c ca rs) reply = DirectMessage i f t c ca (rs @ [reply])"

definition ReplyToDirectMessage ::
  "string list \<Rightarrow> RedditEngine \<Rightarrow> string \<Rightarrow> string \<Rightarrow> string \<Rightarrow> int \<Rightarrow> time
     \<Rightarrow> (error + DirectMessage) \<times> RedditEngine" where
  "ReplyToDirectMessage order e originalMsgID from content idn now =
     (case scanInboxes e order originalMsgID None of
        None \<Rightarrow> (Inl (Errorf ''original message not found''), e)
      | Some (k, i) \<Rightarrow>
          (case directMessages e k of
             None \<Rightarrow> (Inl NilDereference, e)
           | Some messages \<Rightarrow>
               (let originalDM = messages ! i;
                    reply = DirectMessage (''dm_'' @ fmt_d idn) from
                              (DirectMessage.From originalDM) content now []
                in (Inr reply, e\<lparr>directMessages := (directMessages e)(k \<mapsto>
                      messages[i := addReply originalDM reply])\<rparr>))))"

definition GetDirectMessages :: "RedditEngine \<Rightarrow> string \<Rightarrow> error + DirectMessage list" where
  "GetDirectMessages e username =
     (case users e username of
        None \<Rightarrow> Inl (Errorf ''user not found'')
      | Some _ \<Rightarrow>
          Inr (case directMessages e username of None \<Rightarrow> [] | Some ms \<Rightarrow> ms))"

subsection \<open>Statistics\<close>

text \<open>
  The statistics are computed by the two callers of the engine, the actor
  (\<open>Receive\<close>, case \<open>*GetStatsMessage\<close>) and the HTTP server (\<open>handleGetStats\<close>),
  directly on the engine's maps. \<open>len\<close> of a slice or map is a Go \<open>int\<close>.
\<close>

text \<open>
  \<open>countComments\<close> starts from \<open>len(comments)\<close> and adds the count of each
  comment's children: every comment of the slice counts 1, plus its descendants.
\<close>

fun countComments :: "Comment list \<Rightarrow> go_int" where
  "countComments [] = 0"
| "countComments (Comment i ct au pa t v ch # cs) =
     1 + countComments ch + countComments cs"

record UserKarma =
  Username :: string
  Karma :: go_int

record StatsResponse =
  Users :: go_int
  Subreddits :: go_int
  Posts :: go_int
  Comments :: go_int
  DirectMessages :: go_int
  TotalUpvotes :: go_int
  TotalDownvotes :: go_int
  TopUsers :: "UserKarma list"

record HTTPStatsResponse =
  TotalUsers :: go_int
  TotalSubreddits :: go_int
  TotalPosts :: go_int
  TotalComments :: go_int
  DirectMessages :: go_int
  TotalUpvotes :: go_int
  TotalDownvotes :: go_int
  TopUsers :: "UserKarma list"

text \<open>
  The loop over \<open>posts\<close>, with the accumulators \<open>totalComments\<close>, \<open>totalUpvotes\<close>
  and \<open>totalDownvotes\<close>. The two callers update the same three accumulators in a
  different order of statements.
\<close>

fun postTotals ::
  "RedditEngine \<Rightarrow> string list \<Rightarrow> go_int \<times> go_int \<times> go_int \<Rightarrow> go_int \<times> go_int \<times> go_int" where
  "postTotals e [] acc = acc"
| "postTotals e (k # ks) (totalComments, totalUpvotes, totalDownvotes) =
     (case posts e k of
        None \<Rightarrow> postTotals e ks (totalComments, totalUpvotes, totalDownvotes)
      | Some a \<Rightarrow>
          (let post = postHeap e a in
           postTotals e ks
             (totalComments + countComments (Post.Comments post),
              (if 0 < sint (Post.Votes post) then totalUpvotes + Post.Votes post
               else totalUpvotes),
              (if 0 < sint (Post.Votes post) then totalDownvotes
               else totalDownvotes + (- Post.Votes post)))))"

fun rangeUsers ::
  "RedditEngine \<Rightarrow> string list \<Rightarrow> (string \<times> go_int) list \<Rightarrow> (string \<times> go_int) list" where
  "rangeUsers e [] acc = acc"
| "rangeUsers e (username # rest) acc =
     (case users e username of
        None \<Rightarrow> rangeUsers e rest acc
      | Some user \<Rightarrow> rangeUsers e rest (acc @ [(username, User.Karma user)]))"

fun dmTotal :: "RedditEngine \<Rightarrow> string list \<Rightarrow> go_int \<Rightarrow> go_int" where
  "dmTotal e [] totalDMs = totalDMs"
| "dmTotal e (k # ks) totalDMs =
     (case directMessages e k of
        None \<Rightarrow> dmTotal e ks totalDMs
      | Some messages \<Rightarrow> dmTotal e ks (totalDMs + of_nat (length messages)))"

definition toUserKarma :: "string \<times> go_int \<Rightarrow> UserKarma" where
  "toUserKarma p = \<lparr>UserKarma.Username = fst p, UserKarma.Karma = snd p\<rparr>"

text \<open>
  \<open>sort.Slice\<close> belongs to Go's standard library, not to this program: it is the
  parameter \<open>sort_Slice\<close>, applied to the \<open>less\<close> function the caller passes.
\<close>

definition Receive_GetStats ::
  "((UserKarma \<Rightarrow> UserKarma \<Rightarrow> bool) \<Rightarrow> UserKarma list \<Rightarrow> UserKarma list)
     \<Rightarrow> string list \<Rightarrow> string list \<Rightarrow> string list \<Rightarrow> RedditEngine \<Rightarrow> StatsResponse" where
  "Receive_GetStats sort_Slice postOrder userOrder dmOrder e =
     (let (totalComments, totalUpvotes, totalDownvotes) = postTotals e postOrder (0, 0, 0);
          topUsers = map toUserKarma (rangeUsers e userOrder []);
          topUsers = sort_Slice
            (\<lambda>a b. sint (UserKarma.Karma a) > sint (UserKarma.Karma b)) topUsers;
          topUsers = (if length topUsers > 10 then take 10 topUsers else topUsers);
          totalDMs = dmTotal e dmOrder 0
      in \<lparr>Users = of_nat (card (dom (users e))),
          StatsResponse.Subreddits = of_nat (card (dom (subreddits e))),
          StatsResponse.Posts = of_nat (card (dom (posts e))),
          StatsResponse.Comments = totalComments,
          StatsResponse.DirectMessages = totalDMs,
          StatsResponse.TotalUpvotes = totalUpvotes,
          StatsResponse.TotalDownvotes = totalDownvotes,
          StatsResponse.TopUsers = topUsers\<rparr>)"

function top5 :: "(string \<times> go_int) list \<Rightarrow> nat \<Rightarrow> UserKarma list \<Rightarrow> UserKarma list" where
  "top5 userKarmas i topUsers =
     (if i < length userKarmas \<and> i < 5
      then top5 userKarmas (i + 1) (topUsers @ [toUserKarma (userKarmas ! i)])
      else topUsers)"
  by pat_completeness auto
termination
  by (relation "measure (\<lambda>(userKarmas, i, topUsers). 5 - i)") auto

declare top5.simps [simp del]

definition handleGetStats ::
  "(((string \<times> go_int) \<Rightarrow> (string \<times> go_int) \<Rightarrow> bool)
       \<Rightarrow> (string \<times> go_int) list \<Rightarrow> (string \<times> go_int) list)
     \<Rightarrow> string list \<Rightarrow> string list \<Rightarrow> string list \<Rightarrow> RedditEngine \<Rightarrow> HTTPStatsResponse" where
  "handleGetStats sort_Slice postOrder userOrder dmOrder e =
     (let (totalComments, totalUpvotes, totalDownvotes) = postTotals e postOrder (0, 0, 0);
          userKarmas = rangeUsers e userOrder [];
          userKarmas = sort_Slice (\<lambda>a b. sint (snd a) > sint (snd b)) userKarmas;
          topUsers = top5 userKarmas 0 [];
          totalDMs = dmTotal e dmOrder 0
      in \<lparr>TotalUsers = of_nat (card (dom (users e))),
          TotalSubreddits = of_nat (card (dom (subreddits e))),
          TotalPosts = of_nat (card (dom (posts e))),
          TotalComments = totalComments,
          HTTPStatsResponse.DirectMessages = totalDMs,
          HTTPStatsResponse.TotalUpvotes = totalUpvotes,
          HTTPStatsResponse.TotalDownvotes = totalDownvotes,
          HTTPStatsResponse.TopUsers = topUsers\<rparr>)"

section \<open>Runs of the engine\<close>

text \<open>
  \<open>keyOrder ks m\<close>: the list \<open>ks\<close> is an order in which \<open>range\<close> may visit the map
  \<open>m\<close>, each key once. One step of the engine is one call of an operation that can
  change it.
\<close>

definition keyOrder :: "'k list \<Rightarrow> ('k \<rightharpoonup> 'v) \<Rightarrow> bool" where
  "keyOrder ks m \<longleftrightarrow> distinct ks \<and> set ks = dom m"

inductive step :: "RedditEngine \<Rightarrow> RedditEngine \<Rightarrow> bool" where
  step_RegisterUser: "step e (snd (RegisterUser e username password now))"
| step_CreateSubreddit: "step e (snd (CreateSubreddit e name description creator now))"
| step_JoinSubreddit: "step e (snd (JoinSubreddit e username subredditName))"
| step_LeaveSubreddit: "step e (snd (LeaveSubreddit e username subredditName))"
| step_CreatePost: "step e (snd (CreatePost e title content author subredditName idn now))"
| step_AddComment: "step e (snd (AddComment e content author postID parentCommentID idn now))"
| step_VotePost: "step e (snd (VotePost e postID upvote))"
| step_SendDirectMessage: "step e (snd (SendDirectMessage e from to content idn now))"
| step_ReplyToDirectMessage:
    "keyOrder order (directMessages e) \<Longrightarrow>
     step e (snd (ReplyToDirectMessage order e originalMsgID from content idn now))"

inductive reachable :: "RedditEngine \<Rightarrow> bool" where
  reachable_New: "reachable NewRedditEngine"
| reachable_step: "reachable e \<Longrightarrow> step e e' \<Longrightarrow> reachable e'"

text \<open>A sequence of votes on one post, in order; \<open>True\<close> is an upvote.\<close>

fun VotePosts :: "RedditEngine \<Rightarrow> string \<Rightarrow> bool list \<Rightarrow> RedditEngine" where
  "VotePosts e postID [] = e"
| "VotePosts e postID (upvote # rest) = VotePosts (snd (VotePost e postID upvote)) postID rest"

definition upvotes :: "bool list \<Rightarrow> nat" where
  "upvotes vs = length (filter (\<lambda>v. v) vs)"

definition downvotes :: "bool list \<Rightarrow> nat" where
  "downvotes vs = length (filter (\<lambda>v. \<not> v) vs)"

text \<open>
  The scenario of the specification: \<open>alice\<close> and \<open>bob\<close> register, \<open>alice\<close>
  creates \<open>science\<close>, \<open>bob\<close> joins it, \<open>alice\<close> posts in it. In \<open>ghostScenario\<close>
  a name that was never registered posts as well.
\<close>

definition scenario :: RedditEngine where
  "scenario =
     snd (CreatePost
       (snd (JoinSubreddit
         (snd (CreateSubreddit
           (snd (RegisterUser (snd (RegisterUser NewRedditEngine ''alice'' ''pw'' 1))
                  ''bob'' ''pw'' 2))
           ''science'' ''d'' ''alice'' 3))
         ''bob'' ''science''))
       ''H'' ''C'' ''alice'' ''science'' 4 5)"

definition ghostScenario :: RedditEngine where
  "ghostScenario = snd (CreatePost scenario ''T'' ''B'' ''ghost'' ''science'' 8 9)"

text \<open>
  Two properties of the engines that runs produce. \<open>joinedExist\<close>: every name in a
  user's joined set is a key of \<open>subreddits\<close>. \<open>postsSeparate\<close>: a subreddit's
  \<open>Posts\<close> holds allocated posts, each once, and no post is in two subreddits.
\<close>

definition joinedExist :: "RedditEngine \<Rightarrow> bool" where
  "joinedExist e \<longleftrightarrow>
     (\<forall>u user. users e u = Some user \<longrightarrow> User.Subreddits user \<subseteq> dom (subreddits e))"

definition postsSeparate :: "RedditEngine \<Rightarrow> bool" where
  "postsSeparate e \<longleftrightarrow>
     (\<forall>n sr. subreddits e n = Some sr \<longrightarrow>
        distinct (Subreddit.Posts sr) \<and> (\<forall>a \<in> set (Subreddit.Posts sr). a < nextPost e))
     \<and> (\<forall>n n' sr sr'. n \<noteq> n' \<and> subreddits e n = Some sr \<and> subreddits e n' = Some sr' \<longrightarrow>
        set (Subreddit.Posts sr) \<inter> set (Subreddit.Posts sr') = {})"

text \<open>The posts of the named subreddits, one subreddit after the other.\<close>

definition postsOf :: "RedditEngine \<Rightarrow> string list \<Rightarrow> addr list" where
  "postsOf e names = concat (map (\<lambda>n. Subreddit.Posts (the (subreddits e n))) names)"

text \<open>
  \<open>feedScenario\<close> goes on from \<open>scenario\<close>: \<open>bob\<close> creates and joins \<open>art\<close> and
  posts there, then \<open>alice\<close> posts in \<open>science\<close> again, at the creation time of her
  first post.
\<close>

definition feedScenario :: RedditEngine where
  "feedScenario =
     snd (CreatePost
       (snd (CreatePost
         (snd (JoinSubreddit (snd (CreateSubreddit scenario ''art'' ''a'' ''bob'' 10))
                ''bob'' ''art''))
         ''P1'' ''x'' ''bob'' ''art'' 11 20))
       ''P2'' ''y'' ''alice'' ''science'' 12 5)"

text \<open>
  A user's top-level inbox as a sequence (a missing key reads as the nil slice), a
  message without its replies, and the scenario of the specification for direct
  messages: \<open>alice\<close> sends \<open>hi\<close> to \<open>bob\<close>.
\<close>

definition inbox :: "RedditEngine \<Rightarrow> string \<Rightarrow> DirectMessage list" where
  "inbox e u = (case directMessages e u of None \<Rightarrow> [] | Some ms \<Rightarrow> ms)"

fun withoutReplies :: "DirectMessage \<Rightarrow> DirectMessage" where
  "withoutReplies (DirectMessage i f t c ca rs) = DirectMessage i f t c ca []"

definition dmScenario :: RedditEngine where
  "dmScenario = snd (SendDirectMessage scenario ''alice'' ''bob'' ''hi'' 6 7)"

text \<open>
  Views of a comment tree: the identifiers of all its nodes in the order a depth-first
  walk meets them, the identifiers the walk meets before it reaches the node of a path,
  and a node's own fields.
\<close>

fun commentIDs :: "Comment list \<Rightarrow> string list" where
  "commentIDs [] = []"
| "commentIDs (Comment i ct au pa t v ch # cs) = i # commentIDs ch @ commentIDs cs"

fun idsBefore :: "Comment list \<Rightarrow> nat list \<Rightarrow> string list" where
  "idsBefore cs [] = []"
| "idsBefore cs [k] = commentIDs (take k cs)"
| "idsBefore cs (k # p) =
     commentIDs (take k cs) @ Comment.ID (cs ! k) # idsBefore (Comment.Children (cs ! k)) p"

fun ownFields :: "Comment \<Rightarrow> string \<times> string \<times> string \<times> string \<times> time \<times> go_int" where
  "ownFields (Comment i ct au pa t v ch) = (i, ct, au, pa, t, v)"

text \<open>
  \<open>commentScenario\<close> goes on from \<open>scenario\<close>: \<open>bob\<close> comments on the post and
  \<open>alice\<close> answers his comment.
\<close>

definition commentScenario :: RedditEngine where
  "commentScenario =
     snd (AddComment (snd (AddComment scenario ''first'' ''bob'' ''post_4'' [] 20 21))
            ''second'' ''alice'' ''post_4'' ''comment_20'' 22 23)"

text \<open>
  For the statistics: the post a key of \<open>posts\<close> points to; what \<open>sort.Slice\<close>
  promises for the \<open>less\<close> function \<open>lt\<close> it is given (the result is a rearrangement of
  the slice in which no element is less than an earlier one); a ranking of all users by karma,
  highest first; an insertion sort as an instance of \<open>sort.Slice\<close>; and a scenario with
  votes, comments and a direct message.
\<close>

definition postAt :: "RedditEngine \<Rightarrow> string \<Rightarrow> Post" where
  "postAt e k = postHeap e (the (posts e k))"

definition sortContract :: "(('a \<Rightarrow> 'a \<Rightarrow> bool) \<Rightarrow> 'a list \<Rightarrow> 'a list) \<Rightarrow> ('a \<Rightarrow> 'a \<Rightarrow> bool) \<Rightarrow> bool" where
  "sortContract sort_Slice lt \<longleftrightarrow>
     (\<forall>xs. mset (sort_Slice lt xs) = mset xs
         \<and> sorted_wrt (\<lambda>a b. \<not> lt b a) (sort_Slice lt xs))"

definition rankedByKarma :: "RedditEngine \<Rightarrow> UserKarma list \<Rightarrow> bool" where
  "rankedByKarma e ranked \<longleftrightarrow>
     mset ranked =
       image_mset (\<lambda>k. \<lparr>UserKarma.Username = k, UserKarma.Karma = User.Karma (the (users e k))\<rparr>)
         (mset_set (dom (users e)))
     \<and> sorted_wrt (\<lambda>a b. sint (UserKarma.Karma b) \<le> sint (UserKarma.Karma a)) ranked"

fun insertLess :: "('a \<Rightarrow> 'a \<Rightarrow> bool) \<Rightarrow> 'a \<Rightarrow> 'a list \<Rightarrow> 'a list" where
  "insertLess lt x [] = [x]"
| "insertLess lt x (y # ys) =
     (if lt x y then x # y # ys else y # insertLess lt x ys)"

definition insertionSort :: "('a \<Rightarrow> 'a \<Rightarrow> bool) \<Rightarrow> 'a list \<Rightarrow> 'a list" where
  "insertionSort lt xs = foldr (insertLess lt) xs []"

definition statsScenario :: RedditEngine where
  "statsScenario =
     snd (SendDirectMessage
       (snd (VotePost
         (snd (VotePost
           (snd (CreatePost commentScenario ''T'' ''B'' ''ghost'' ''science'' 8 9))
           ''post_4'' True))
         ''post_8'' False))
       ''alice'' ''bob'' ''hi'' 6 7)"

text \<open>
  \<open>carriesID e X k i\<close>: message \<open>i\<close> of the inbox of \<open>k\<close> has the identifier \<open>X\<close>;
  \<open>onlyCarrier\<close>: it is the only message of any inbox that has it. In \<open>dupScenario\<close>
  the clock reads the same nanosecond for two messages, \<open>alice\<close>'s to \<open>bob\<close> and
  \<open>bob\<close>'s to \<open>alice\<close>, which so get the same identifier.
\<close>

definition carriesID :: "RedditEngine \<Rightarrow> string \<Rightarrow> string \<Rightarrow> nat \<Rightarrow> bool" where
  "carriesID e X k i \<longleftrightarrow> i < length (inbox e k) \<and> DirectMessage.ID (inbox e k ! i) = X"

definition onlyCarrier :: "RedditEngine \<Rightarrow> string \<Rightarrow> string \<Rightarrow> nat \<Rightarrow> bool" where
  "onlyCarrier e X k i \<longleftrightarrow>
     carriesID e X k i \<and> (\<forall>k' j. carriesID e X k' j \<longrightarrow> k' = k \<and> j = i)"

definition dupScenario :: RedditEngine where
  "dupScenario = snd (SendDirectMessage dmScenario ''bob'' ''alice'' ''yo'' 6 9)"


section \<open>Properties of the engine\<close>

subsection \<open>The scenario, evaluated\<close>

lemma fmt_d_4: "fmt_d 4 = ''4''"
  by code_simp

lemma fmt_d_8: "fmt_d 8 = ''8''"
  by code_simp

lemma scenario_fields:
  "users scenario = [''alice'' \<mapsto> \<lparr>User.Username = ''alice'', User.Password = ''pw'',
       User.Karma = 0, User.CreatedAt = 1, User.Subreddits = {}\<rparr>,
     ''bob'' \<mapsto> \<lparr>User.Username = ''bob'', User.Password = ''pw'', User.Karma = 0,
       User.CreatedAt = 2, User.Subreddits = {''science''}\<rparr>]"
  "subreddits scenario = [''science'' \<mapsto> \<lparr>Name = ''science'', Description = ''d'',
       Creator = ''alice'', Subreddit.CreatedAt = 3, Subreddit.Posts = [0],
       Members = {''bob''}\<rparr>]"
  "posts scenario = [''post_4'' \<mapsto> 0]"
  "directMessages scenario = Map.empty"
  "postHeap scenario 0 = \<lparr>Post.ID = ''post_4'', Title = ''H'', Post.Content = ''C'',
       Post.Author = ''alice'', Subreddit = ''science'', Post.CreatedAt = 5, Post.Votes = 0,
       Post.Comments = []\<rparr>"
  "nextPost scenario = 1"
  by (simp_all add: scenario_def CreatePost_def JoinSubreddit_def CreateSubreddit_def
      RegisterUser_def NewRedditEngine_def fmt_d_4 Let_def)

lemma ghostScenario_fields:
  "users ghostScenario = users scenario"
  "posts ghostScenario = [''post_4'' \<mapsto> 0, ''post_8'' \<mapsto> Suc 0]"
  "postHeap ghostScenario (Suc 0) = \<lparr>Post.ID = ''post_8'', Title = ''T'', Post.Content = ''B'',
       Post.Author = ''ghost'', Subreddit = ''science'', Post.CreatedAt = 9, Post.Votes = 0,
       Post.Comments = []\<rparr>"
  by (simp_all add: ghostScenario_def CreatePost_def scenario_fields fmt_d_8 Let_def)

subsection \<open>Registration\<close>

text \<open>
  C5. The first \<open>RegisterUser\<close> of a username succeeds and creates a user with karma 0
  and no joined subreddit, leaving every other user as it was; a second \<open>RegisterUser\<close>
  of that username, with any password at any time, fails with \<open>AlreadyExists\<close> and
  leaves the engine, and so the map of users, unchanged.
\<close>

theorem RegisterUser_twice:
  assumes "users e u = None"
  shows "fst (RegisterUser e u p now) = Inr ()
    \<and> users (snd (RegisterUser e u p now)) u =
        Some \<lparr>User.Username = u, User.Password = p, User.Karma = 0, User.CreatedAt = now,
              User.Subreddits = {}\<rparr>
    \<and> (\<forall>u'. u' \<noteq> u \<longrightarrow> users (snd (RegisterUser e u p now)) u' = users e u')
    \<and> RegisterUser (snd (RegisterUser e u p now)) u p' now' =
        (Inl (AlreadyExists ''user''), snd (RegisterUser e u p now))"
  using assms by (simp add: RegisterUser_def AlreadyExists_def)

theorem RegisterUser_twice_witness:
  "users NewRedditEngine ''alice'' = None
   \<and> fst (RegisterUser NewRedditEngine ''alice'' ''pw'' 7) = Inr ()
   \<and> User.Karma (the (users (snd (RegisterUser NewRedditEngine ''alice'' ''pw'' 7)) ''alice'')) = 0
   \<and> User.Subreddits (the (users (snd (RegisterUser NewRedditEngine ''alice'' ''pw'' 7)) ''alice'')) = {}
   \<and> fst (RegisterUser (snd (RegisterUser NewRedditEngine ''alice'' ''pw'' 7)) ''alice'' ''other'' 9)
       = Inl (Errorf ''user already exists'')"
proof -
  have h: "users NewRedditEngine ''alice'' = None"
    by (simp add: NewRedditEngine_def)
  show ?thesis
    using h RegisterUser_twice [OF h, of "''pw''" 7 "''other''" 9]
    by (simp add: AlreadyExists_def)
qed

subsection \<open>Votes and karma\<close>

lemma VotePost_frame:
  assumes "posts e postID = Some a"
  shows "posts (snd (VotePost e postID upvote)) = posts e"
    and "Post.Author (postHeap (snd (VotePost e postID upvote)) a) = Post.Author (postHeap e a)"
    and "fst (VotePost e postID upvote) = Inr ()"
    and "Post.Votes (postHeap (snd (VotePost e postID upvote)) a) =
           Post.Votes (postHeap e a) + (if upvote then 2 else - 1)"
  using assms by (auto simp: VotePost_def updateKarma_def Let_def split: option.splits)

lemma VotePost_karma:
  assumes "posts e postID = Some a" "users e (Post.Author (postHeap e a)) = Some user"
  shows "\<exists>user'. users (snd (VotePost e postID upvote)) (Post.Author (postHeap e a)) = Some user'
           \<and> User.Karma user' = User.Karma user + (if upvote then 1 else - 1)"
  using assms by (auto simp: VotePost_def updateKarma_def Let_def split: option.splits)

lemma VotePosts_votes:
  assumes "posts e postID = Some a"
  shows "posts (VotePosts e postID vs) = posts e
    \<and> Post.Author (postHeap (VotePosts e postID vs) a) = Post.Author (postHeap e a)
    \<and> Post.Votes (postHeap (VotePosts e postID vs) a) =
        Post.Votes (postHeap e a) + 2 * of_nat (upvotes vs) - of_nat (downvotes vs)"
  using assms
proof (induction vs arbitrary: e)
  case Nil
  then show ?case by (simp add: upvotes_def downvotes_def)
next
  case (Cons v vs)
  let ?e1 = "snd (VotePost e postID v)"
  have p1: "posts ?e1 postID = Some a"
    using Cons.prems by (simp add: VotePost_frame(1))
  from Cons.IH [OF p1] show ?case
    using Cons.prems
    by (simp add: VotePost_frame upvotes_def downvotes_def)
qed

lemma VotePosts_karma:
  assumes "posts e postID = Some a" "users e (Post.Author (postHeap e a)) = Some user"
  shows "\<exists>user'. users (VotePosts e postID vs) (Post.Author (postHeap e a)) = Some user'
    \<and> User.Karma user' = User.Karma user + of_nat (upvotes vs) - of_nat (downvotes vs)"
  using assms
proof (induction vs arbitrary: e user)
  case Nil
  then show ?case by (simp add: upvotes_def downvotes_def)
next
  case (Cons v vs)
  let ?e1 = "snd (VotePost e postID v)"
  have p1: "posts ?e1 postID = Some a"
    using Cons.prems by (simp add: VotePost_frame(1))
  have au: "Post.Author (postHeap ?e1 a) = Post.Author (postHeap e a)"
    using Cons.prems by (simp add: VotePost_frame(2))
  from VotePost_karma [OF Cons.prems, of v] obtain user1 where
    u1: "users ?e1 (Post.Author (postHeap e a)) = Some user1"
      "User.Karma user1 = User.Karma user + (if v then 1 else - 1)"
    by blast
  from Cons.IH [OF p1, of user1] u1 au obtain user' where
    "users (VotePosts ?e1 postID vs) (Post.Author (postHeap e a)) = Some user'"
    "User.Karma user' = User.Karma user1 + of_nat (upvotes vs) - of_nat (downvotes vs)"
    by auto
  with u1 show ?case
    by (auto simp: upvotes_def downvotes_def)
qed

lemma sint_go_int_of_int:
  "- (2 ^ 63) \<le> k \<Longrightarrow> k < 2 ^ 63 \<Longrightarrow> sint (word_of_int k :: go_int) = k"
  by (simp add: signed_of_int signed_take_bit_int_eq_self)

lemma sint_go_int_add:
  assumes "- (2 ^ 63) \<le> sint (w :: go_int) + k" "sint w + k < 2 ^ 63"
  shows "sint (w + word_of_int k) = sint w + k"
proof -
  have "w + word_of_int k = word_of_int (sint w + k)"
    by simp
  then show ?thesis
    using sint_go_int_of_int [OF assms] by simp
qed

text \<open>
  C1. Let a post be present in the store with vote counter 0, and let a sequence of votes
  with \<open>N\<close> upvotes and \<open>M\<close> downvotes be applied to it by \<open>VotePost\<close>. Afterwards
  the post's counter is \<open>2N - M\<close> and, if the post's author is a registered user, the
  author's karma has changed by \<open>N - M\<close>. Both are Go \<open>int\<close>s: the equations hold in
  64-bit arithmetic, and between the numbers themselves whenever the result fits.
\<close>

theorem VotePost_sequence:
  assumes "posts e postID = Some a"
    and "Post.Votes (postHeap e a) = 0"
  shows "Post.Votes (postHeap (VotePosts e postID vs) a) =
           word_of_int (2 * int (upvotes vs) - int (downvotes vs))
    \<and> (- (2 ^ 63) \<le> 2 * int (upvotes vs) - int (downvotes vs)
         \<and> 2 * int (upvotes vs) - int (downvotes vs) < 2 ^ 63 \<longrightarrow>
       sint (Post.Votes (postHeap (VotePosts e postID vs) a)) =
         2 * int (upvotes vs) - int (downvotes vs))
    \<and> (\<forall>user. users e (Post.Author (postHeap e a)) = Some user \<longrightarrow>
         (\<exists>user'. users (VotePosts e postID vs) (Post.Author (postHeap e a)) = Some user'
            \<and> User.Karma user' =
                User.Karma user + word_of_int (int (upvotes vs) - int (downvotes vs))
            \<and> (- (2 ^ 63) \<le> sint (User.Karma user) + (int (upvotes vs) - int (downvotes vs))
                 \<and> sint (User.Karma user) + (int (upvotes vs) - int (downvotes vs)) < 2 ^ 63 \<longrightarrow>
               sint (User.Karma user') =
                 sint (User.Karma user) + (int (upvotes vs) - int (downvotes vs)))))"
proof -
  have v: "Post.Votes (postHeap (VotePosts e postID vs) a) =
           word_of_int (2 * int (upvotes vs) - int (downvotes vs))"
    using VotePosts_votes [OF assms(1), of vs] assms(2) by simp
  have s: "sint (Post.Votes (postHeap (VotePosts e postID vs) a)) =
         2 * int (upvotes vs) - int (downvotes vs)"
    if "- (2 ^ 63) \<le> 2 * int (upvotes vs) - int (downvotes vs)"
      "2 * int (upvotes vs) - int (downvotes vs) < 2 ^ 63"
    unfolding v using that by (rule sint_go_int_of_int)
  have k: "\<exists>user'. users (VotePosts e postID vs) (Post.Author (postHeap e a)) = Some user'
            \<and> User.Karma user' =
                User.Karma user + word_of_int (int (upvotes vs) - int (downvotes vs))
            \<and> (- (2 ^ 63) \<le> sint (User.Karma user) + (int (upvotes vs) - int (downvotes vs))
                 \<and> sint (User.Karma user) + (int (upvotes vs) - int (downvotes vs)) < 2 ^ 63 \<longrightarrow>
               sint (User.Karma user') =
                 sint (User.Karma user) + (int (upvotes vs) - int (downvotes vs)))"
    if u: "users e (Post.Author (postHeap e a)) = Some user" for user
  proof -
    from VotePosts_karma [OF assms(1) u, of vs] obtain user' where
      u': "users (VotePosts e postID vs) (Post.Author (postHeap e a)) = Some user'"
      and k': "User.Karma user' =
                User.Karma user + word_of_int (int (upvotes vs) - int (downvotes vs))"
      by (auto simp: diff_add_eq algebra_simps)
    have r: "- (2 ^ 63) \<le> sint (User.Karma user) + (int (upvotes vs) - int (downvotes vs))
                 \<and> sint (User.Karma user) + (int (upvotes vs) - int (downvotes vs)) < 2 ^ 63 \<longrightarrow>
               sint (User.Karma user') =
                 sint (User.Karma user) + (int (upvotes vs) - int (downvotes vs))"
      unfolding k'
      using sint_go_int_add [of "User.Karma user" "int (upvotes vs) - int (downvotes vs)"]
      by blast
    from u' k' r show ?thesis by blast
  qed
  from v k s show ?thesis by blast
qed

theorem VotePost_sequence_witness:
  "posts scenario ''post_4'' = Some 0
   \<and> Post.Votes (postHeap scenario 0) = 0
   \<and> users scenario (Post.Author (postHeap scenario 0)) \<noteq> None
   \<and> sint (Post.Votes (postHeap (VotePosts scenario ''post_4'' [True, False, True]) 0)) = 3
   \<and> map_option (\<lambda>user. sint (User.Karma user))
        (users (VotePosts scenario ''post_4'' [True, False, True]) ''alice'') = Some 1"
proof -
  have h1: "posts scenario ''post_4'' = Some 0"
    and h2: "Post.Votes (postHeap scenario 0) = 0"
    by (simp_all add: scenario_fields)
  obtain user where u: "users scenario (Post.Author (postHeap scenario 0)) = Some user"
    and k: "User.Karma user = 0"
    by (simp add: scenario_fields)
  have n: "upvotes [True, False, True] = 2" "downvotes [True, False, True] = 1"
    by (simp_all add: upvotes_def downvotes_def)
  note t = VotePost_sequence [OF h1 h2, of "[True, False, True]", unfolded n]
  from t have v: "sint (Post.Votes (postHeap (VotePosts scenario ''post_4'' [True, False, True]) 0))
      = 2 * int 2 - int 1"
    by simp
  from t u obtain user' where
    u': "users (VotePosts scenario ''post_4'' [True, False, True])
       (Post.Author (postHeap scenario 0)) = Some user'"
    and r: "- (2 ^ 63) \<le> sint (User.Karma user) + (int 2 - int 1)
        \<and> sint (User.Karma user) + (int 2 - int 1) < 2 ^ 63 \<longrightarrow>
      sint (User.Karma user') = sint (User.Karma user) + (int 2 - int 1)"
    by blast
  from r have k': "sint (User.Karma user') = 1"
    by (simp add: k)
  have au: "Post.Author (postHeap scenario 0) = ''alice''"
    by (simp add: scenario_fields)
  from h1 h2 u v u' k' show ?thesis
    unfolding au by simp
qed

text \<open>
  C8. When the author of a post is not a registered user, \<open>VotePost\<close> on the post still
  returns no error and moves the post's counter by +2 or -1, and the map of users is left
  as it was: no karma changes.
\<close>

theorem VotePost_unregistered_author:
  assumes "posts e postID = Some a"
    and "users e (Post.Author (postHeap e a)) = None"
  shows "fst (VotePost e postID upvote) = Inr ()
    \<and> Post.Votes (postHeap (snd (VotePost e postID upvote)) a) =
        Post.Votes (postHeap e a) + (if upvote then 2 else - 1)
    \<and> users (snd (VotePost e postID upvote)) = users e"
  using assms by (simp add: VotePost_def updateKarma_def Let_def)

theorem VotePost_unregistered_author_witness:
  "posts ghostScenario ''post_8'' = Some 1
   \<and> users ghostScenario (Post.Author (postHeap ghostScenario 1)) = None
   \<and> fst (VotePost ghostScenario ''post_8'' True) = Inr ()
   \<and> Post.Votes (postHeap (snd (VotePost ghostScenario ''post_8'' True)) 1) = 2
   \<and> Post.Votes (postHeap (snd (VotePost ghostScenario ''post_8'' False)) 1) = - 1
   \<and> users (snd (VotePost ghostScenario ''post_8'' True)) = users ghostScenario"
proof -
  have h1: "posts ghostScenario ''post_8'' = Some 1"
    and h2: "users ghostScenario (Post.Author (postHeap ghostScenario 1)) = None"
    by (simp_all add: ghostScenario_fields scenario_fields)
  from VotePost_unregistered_author [OF h1 h2, of True]
    VotePost_unregistered_author [OF h1 h2, of False] h1 h2
  show ?thesis
    by (simp add: ghostScenario_fields)
qed

subsection \<open>Membership\<close>

text \<open>
  C6. \<open>LeaveSubreddit\<close> fails, with \<open>NotFound\<close>, exactly when the user or the
  subreddit does not exist, and so does \<open>JoinSubreddit\<close>. When both exist,
  \<open>LeaveSubreddit\<close> returns no error, removes the subreddit's name from the user's
  joined set and the username from the subreddit's member set, and touches no other user
  or subreddit; when the user was not a member this changes nothing. \<open>JoinSubreddit\<close>
  returns no error, adds the name to the joined set and the username to the member set,
  and touches no other user or subreddit; it is idempotent, and for a member it changes
  nothing. The two undo each other: leaving after joining is leaving, and gives back the
  engine of a user who was not a member; joining after leaving is joining, and gives back
  the engine of a user who was a member.
\<close>

theorem LeaveSubreddit_inverse:
  "(users e u = None \<longrightarrow> LeaveSubreddit e u s = (Inl (NotFound ''user''), e))
   \<and> (users e u \<noteq> None \<and> subreddits e s = None \<longrightarrow>
        LeaveSubreddit e u s = (Inl (NotFound ''subreddit''), e))
   \<and> ((\<exists>err. fst (LeaveSubreddit e u s) = Inl err) \<longleftrightarrow>
        (users e u = None \<or> subreddits e s = None))
   \<and> (users e u = None \<longrightarrow> JoinSubreddit e u s = (Inl (NotFound ''user''), e))
   \<and> (users e u \<noteq> None \<and> subreddits e s = None \<longrightarrow>
        JoinSubreddit e u s = (Inl (NotFound ''subreddit''), e))
   \<and> (\<forall>user subreddit. users e u = Some user \<and> subreddits e s = Some subreddit \<longrightarrow>
        fst (LeaveSubreddit e u s) = Inr ()
        \<and> map_option User.Subreddits (users (snd (LeaveSubreddit e u s)) u) =
            Some (User.Subreddits user - {s})
        \<and> map_option Members (subreddits (snd (LeaveSubreddit e u s)) s) =
            Some (Members subreddit - {u})
        \<and> (\<forall>u'. u' \<noteq> u \<longrightarrow> users (snd (LeaveSubreddit e u s)) u' = users e u')
        \<and> (\<forall>s'. s' \<noteq> s \<longrightarrow> subreddits (snd (LeaveSubreddit e u s)) s' = subreddits e s')
        \<and> (s \<notin> User.Subreddits user \<and> u \<notin> Members subreddit \<longrightarrow>
             snd (LeaveSubreddit e u s) = e)
        \<and> fst (JoinSubreddit e u s) = Inr ()
        \<and> JoinSubreddit (snd (JoinSubreddit e u s)) u s = (Inr (), snd (JoinSubreddit e u s))
        \<and> LeaveSubreddit (snd (JoinSubreddit e u s)) u s = LeaveSubreddit e u s
        \<and> (s \<notin> User.Subreddits user \<and> u \<notin> Members subreddit \<longrightarrow>
             snd (LeaveSubreddit (snd (JoinSubreddit e u s)) u s) = e)
        \<and> map_option User.Subreddits (users (snd (JoinSubreddit e u s)) u) =
            Some (insert s (User.Subreddits user))
        \<and> map_option Members (subreddits (snd (JoinSubreddit e u s)) s) =
            Some (insert u (Members subreddit))
        \<and> (\<forall>u'. u' \<noteq> u \<longrightarrow> users (snd (JoinSubreddit e u s)) u' = users e u')
        \<and> (\<forall>s'. s' \<noteq> s \<longrightarrow> subreddits (snd (JoinSubreddit e u s)) s' = subreddits e s')
        \<and> (s \<in> User.Subreddits user \<and> u \<in> Members subreddit \<longrightarrow>
             snd (JoinSubreddit e u s) = e)
        \<and> JoinSubreddit (snd (LeaveSubreddit e u s)) u s = JoinSubreddit e u s
        \<and> (s \<in> User.Subreddits user \<and> u \<in> Members subreddit \<longrightarrow>
             snd (JoinSubreddit (snd (LeaveSubreddit e u s)) u s) = e))"
proof -
  have a: "users e u = None \<longrightarrow> LeaveSubreddit e u s = (Inl (NotFound ''user''), e)"
    by (simp add: LeaveSubreddit_def NotFound_def)
  have b: "users e u \<noteq> None \<and> subreddits e s = None \<longrightarrow>
        LeaveSubreddit e u s = (Inl (NotFound ''subreddit''), e)"
    by (auto simp: LeaveSubreddit_def NotFound_def)
  have c: "(\<exists>err. fst (LeaveSubreddit e u s) = Inl err) \<longleftrightarrow>
        (users e u = None \<or> subreddits e s = None)"
    by (auto simp: LeaveSubreddit_def split: option.splits)
  have ja: "users e u = None \<longrightarrow> JoinSubreddit e u s = (Inl (NotFound ''user''), e)"
    by (simp add: JoinSubreddit_def NotFound_def)
  have jb: "users e u \<noteq> None \<and> subreddits e s = None \<longrightarrow>
        JoinSubreddit e u s = (Inl (NotFound ''subreddit''), e)"
    by (auto simp: JoinSubreddit_def NotFound_def)
  have d: "fst (LeaveSubreddit e u s) = Inr ()
        \<and> map_option User.Subreddits (users (snd (LeaveSubreddit e u s)) u) =
            Some (User.Subreddits user - {s})
        \<and> map_option Members (subreddits (snd (LeaveSubreddit e u s)) s) =
            Some (Members subreddit - {u})
        \<and> (\<forall>u'. u' \<noteq> u \<longrightarrow> users (snd (LeaveSubreddit e u s)) u' = users e u')
        \<and> (\<forall>s'. s' \<noteq> s \<longrightarrow> subreddits (snd (LeaveSubreddit e u s)) s' = subreddits e s')
        \<and> fst (JoinSubreddit e u s) = Inr ()"
    if "users e u = Some user" "subreddits e s = Some subreddit" for user subreddit
    using that by (simp add: LeaveSubreddit_def JoinSubreddit_def)
  have jd: "map_option User.Subreddits (users (snd (JoinSubreddit e u s)) u) =
            Some (insert s (User.Subreddits user))
        \<and> map_option Members (subreddits (snd (JoinSubreddit e u s)) s) =
            Some (insert u (Members subreddit))
        \<and> (\<forall>u'. u' \<noteq> u \<longrightarrow> users (snd (JoinSubreddit e u s)) u' = users e u')
        \<and> (\<forall>s'. s' \<noteq> s \<longrightarrow> subreddits (snd (JoinSubreddit e u s)) s' = subreddits e s')"
    if "users e u = Some user" "subreddits e s = Some subreddit" for user subreddit
    using that by (simp add: JoinSubreddit_def)
  have noop: "snd (LeaveSubreddit e u s) = e"
    if "users e u = Some user" "subreddits e s = Some subreddit"
      "s \<notin> User.Subreddits user" "u \<notin> Members subreddit" for user subreddit
    using that by (simp add: LeaveSubreddit_def map_upd_triv)
  have jnoop: "snd (JoinSubreddit e u s) = e"
    if "users e u = Some user" "subreddits e s = Some subreddit"
      "s \<in> User.Subreddits user" "u \<in> Members subreddit" for user subreddit
    using that by (simp add: JoinSubreddit_def map_upd_triv insert_absorb)
  have idem: "JoinSubreddit (snd (JoinSubreddit e u s)) u s = (Inr (), snd (JoinSubreddit e u s))"
    if "users e u = Some user" "subreddits e s = Some subreddit" for user subreddit
    using that by (simp add: JoinSubreddit_def)
  have lj: "LeaveSubreddit (snd (JoinSubreddit e u s)) u s = LeaveSubreddit e u s"
    if "users e u = Some user" "subreddits e s = Some subreddit" for user subreddit
    using that by (simp add: JoinSubreddit_def LeaveSubreddit_def)
  have jl: "JoinSubreddit (snd (LeaveSubreddit e u s)) u s = JoinSubreddit e u s"
    if "users e u = Some user" "subreddits e s = Some subreddit" for user subreddit
    using that by (simp add: JoinSubreddit_def LeaveSubreddit_def)
  have e: "\<forall>user subreddit. users e u = Some user \<and> subreddits e s = Some subreddit \<longrightarrow>
        fst (LeaveSubreddit e u s) = Inr ()
        \<and> map_option User.Subreddits (users (snd (LeaveSubreddit e u s)) u) =
            Some (User.Subreddits user - {s})
        \<and> map_option Members (subreddits (snd (LeaveSubreddit e u s)) s) =
            Some (Members subreddit - {u})
        \<and> (\<forall>u'. u' \<noteq> u \<longrightarrow> users (snd (LeaveSubreddit e u s)) u' = users e u')
        \<and> (\<forall>s'. s' \<noteq> s \<longrightarrow> subreddits (snd (LeaveSubreddit e u s)) s' = subreddits e s')
        \<and> (s \<notin> User.Subreddits user \<and> u \<notin> Members subreddit \<longrightarrow>
             snd (LeaveSubreddit e u s) = e)
        \<and> fst (JoinSubreddit e u s) = Inr ()
        \<and> JoinSubreddit (snd (JoinSubreddit e u s)) u s = (Inr (), snd (JoinSubreddit e u s))
        \<and> LeaveSubreddit (snd (JoinSubreddit e u s)) u s = LeaveSubreddit e u s
        \<and> (s \<notin> User.Subreddits user \<and> u \<notin> Members subreddit \<longrightarrow>
             snd (LeaveSubreddit (snd (JoinSubreddit e u s)) u s) = e)
        \<and> map_option User.Subreddits (users (snd (JoinSubreddit e u s)) u) =
            Some (insert s (User.Subreddits user))
        \<and> map_option Members (subreddits (snd (JoinSubreddit e u s)) s) =
            Some (insert u (Members subreddit))
        \<and> (\<forall>u'. u' \<noteq> u \<longrightarrow> users (snd (JoinSubreddit e u s)) u' = users e u')
        \<and> (\<forall>s'. s' \<noteq> s \<longrightarrow> subreddits (snd (JoinSubreddit e u s)) s' = subreddits e s')
        \<and> (s \<in> User.Subreddits user \<and> u \<in> Members subreddit \<longrightarrow>
             snd (JoinSubreddit e u s) = e)
        \<and> JoinSubreddit (snd (LeaveSubreddit e u s)) u s = JoinSubreddit e u s
        \<and> (s \<in> User.Subreddits user \<and> u \<in> Members subreddit \<longrightarrow>
             snd (JoinSubreddit (snd (LeaveSubreddit e u s)) u s) = e)"
  proof (intro allI impI, elim conjE)
    fix user subreddit
    assume h: "users e u = Some user" "subreddits e s = Some subreddit"
    have g1: "fst (LeaveSubreddit e u s) = Inr ()
        \<and> map_option User.Subreddits (users (snd (LeaveSubreddit e u s)) u) =
            Some (User.Subreddits user - {s})
        \<and> map_option Members (subreddits (snd (LeaveSubreddit e u s)) s) =
            Some (Members subreddit - {u})
        \<and> (\<forall>u'. u' \<noteq> u \<longrightarrow> users (snd (LeaveSubreddit e u s)) u' = users e u')
        \<and> (\<forall>s'. s' \<noteq> s \<longrightarrow> subreddits (snd (LeaveSubreddit e u s)) s' = subreddits e s')
        \<and> (s \<notin> User.Subreddits user \<and> u \<notin> Members subreddit \<longrightarrow>
             snd (LeaveSubreddit e u s) = e)
        \<and> fst (JoinSubreddit e u s) = Inr ()
        \<and> JoinSubreddit (snd (JoinSubreddit e u s)) u s = (Inr (), snd (JoinSubreddit e u s))
        \<and> LeaveSubreddit (snd (JoinSubreddit e u s)) u s = LeaveSubreddit e u s
        \<and> (s \<notin> User.Subreddits user \<and> u \<notin> Members subreddit \<longrightarrow>
             snd (LeaveSubreddit (snd (JoinSubreddit e u s)) u s) = e)"
      using d [OF h] noop [OF h] idem [OF h] lj [OF h] by simp
    have g2: "map_option User.Subreddits (users (snd (JoinSubreddit e u s)) u) =
            Some (insert s (User.Subreddits user))
        \<and> map_option Members (subreddits (snd (JoinSubreddit e u s)) s) =
            Some (insert u (Members subreddit))
        \<and> (\<forall>u'. u' \<noteq> u \<longrightarrow> users (snd (JoinSubreddit e u s)) u' = users e u')
        \<and> (\<forall>s'. s' \<noteq> s \<longrightarrow> subreddits (snd (JoinSubreddit e u s)) s' = subreddits e s')
        \<and> (s \<in> User.Subreddits user \<and> u \<in> Members subreddit \<longrightarrow>
             snd (JoinSubreddit e u s) = e)
        \<and> JoinSubreddit (snd (LeaveSubreddit e u s)) u s = JoinSubreddit e u s
        \<and> (s \<in> User.Subreddits user \<and> u \<in> Members subreddit \<longrightarrow>
             snd (JoinSubreddit (snd (LeaveSubreddit e u s)) u s) = e)"
      using jd [OF h] jnoop [OF h] jl [OF h] by simp
    from g1 g2 show "fst (LeaveSubreddit e u s) = Inr ()
        \<and> map_option User.Subreddits (users (snd (LeaveSubreddit e u s)) u) =
            Some (User.Subreddits user - {s})
        \<and> map_option Members (subreddits (snd (LeaveSubreddit e u s)) s) =
            Some (Members subreddit - {u})
        \<and> (\<forall>u'. u' \<noteq> u \<longrightarrow> users (snd (LeaveSubreddit e u s)) u' = users e u')
        \<and> (\<forall>s'. s' \<noteq> s \<longrightarrow> subreddits (snd (LeaveSubreddit e u s)) s' = subreddits e s')
        \<and> (s \<notin> User.Subreddits user \<and> u \<notin> Members subreddit \<longrightarrow>
             snd (LeaveSubreddit e u s) = e)
        \<and> fst (JoinSubreddit e u s) = Inr ()
        \<and> JoinSubreddit (snd (JoinSubreddit e u s)) u s = (Inr (), snd (JoinSubreddit e u s))
        \<and> LeaveSubreddit (snd (JoinSubreddit e u s)) u s = LeaveSubreddit e u s
        \<and> (s \<notin> User.Subreddits user \<and> u \<notin> Members subreddit \<longrightarrow>
             snd (LeaveSubreddit (snd (JoinSubreddit e u s)) u s) = e)
        \<and> map_option User.Subreddits (users (snd (JoinSubreddit e u s)) u) =
            Some (insert s (User.Subreddits user))
        \<and> map_option Members (subreddits (snd (JoinSubreddit e u s)) s) =
            Some (insert u (Members subreddit))
        \<and> (\<forall>u'. u' \<noteq> u \<longrightarrow> users (snd (JoinSubreddit e u s)) u' = users e u')
        \<and> (\<forall>s'. s' \<noteq> s \<longrightarrow> subreddits (snd (JoinSubreddit e u s)) s' = subreddits e s')
        \<and> (s \<in> User.Subreddits user \<and> u \<in> Members subreddit \<longrightarrow>
             snd (JoinSubreddit e u s) = e)
        \<and> JoinSubreddit (snd (LeaveSubreddit e u s)) u s = JoinSubreddit e u s
        \<and> (s \<in> User.Subreddits user \<and> u \<in> Members subreddit \<longrightarrow>
             snd (JoinSubreddit (snd (LeaveSubreddit e u s)) u s) = e)"
      apply -
      apply (elim conjE)
      apply (intro conjI)
      apply assumption+
      done
  qed
  show ?thesis
    apply (rule conjI, rule a)
    apply (rule conjI, rule b)
    apply (rule conjI, rule c)
    apply (rule conjI, rule ja)
    apply (rule conjI, rule jb)
    apply (rule e)
    done
qed

theorem LeaveSubreddit_inverse_witness:
  "users scenario ''bob'' \<noteq> None \<and> subreddits scenario ''science'' \<noteq> None
   \<and> fst (LeaveSubreddit scenario ''bob'' ''science'') = Inr ()
   \<and> map_option User.Subreddits
        (users (snd (LeaveSubreddit scenario ''bob'' ''science'')) ''bob'') = Some {}
   \<and> map_option Members
        (subreddits (snd (LeaveSubreddit scenario ''bob'' ''science'')) ''science'') = Some {}
   \<and> snd (JoinSubreddit (snd (LeaveSubreddit scenario ''bob'' ''science'')) ''bob'' ''science'')
       = scenario
   \<and> users scenario ''alice'' \<noteq> None
   \<and> fst (JoinSubreddit scenario ''alice'' ''science'') = Inr ()
   \<and> map_option User.Subreddits
        (users (snd (JoinSubreddit scenario ''alice'' ''science'')) ''alice'') = Some {''science''}
   \<and> map_option Members
        (subreddits (snd (JoinSubreddit scenario ''alice'' ''science'')) ''science'')
       = Some {''alice'', ''bob''}
   \<and> snd (LeaveSubreddit (snd (JoinSubreddit scenario ''alice'' ''science'')) ''alice'' ''science'')
       = scenario
   \<and> users scenario ''carol'' = None
   \<and> LeaveSubreddit scenario ''carol'' ''science'' = (Inl (Errorf ''user not found''), scenario)
   \<and> JoinSubreddit scenario ''carol'' ''science'' = (Inl (Errorf ''user not found''), scenario)
   \<and> subreddits scenario ''cooking'' = None
   \<and> LeaveSubreddit scenario ''bob'' ''cooking'' =
        (Inl (Errorf ''subreddit not found''), scenario)
   \<and> JoinSubreddit scenario ''bob'' ''cooking'' =
        (Inl (Errorf ''subreddit not found''), scenario)"
proof -
  obtain bob where bob: "users scenario ''bob'' = Some bob" "User.Subreddits bob = {''science''}"
    by (simp add: scenario_fields)
  obtain alice where alice: "users scenario ''alice'' = Some alice" "User.Subreddits alice = {}"
    by (simp add: scenario_fields)
  obtain science where science: "subreddits scenario ''science'' = Some science"
      "Members science = {''bob''}"
    by (simp add: scenario_fields)
  have c: "users scenario ''carol'' = None" and k: "subreddits scenario ''cooking'' = None"
    by (simp_all add: scenario_fields)
  have mb: "''science'' \<in> User.Subreddits bob \<and> ''bob'' \<in> Members science"
    using bob science by simp
  have na: "''science'' \<notin> User.Subreddits alice \<and> ''alice'' \<notin> Members science"
    using alice science by simp
  note tb = LeaveSubreddit_inverse [of scenario "''bob''" "''science''",
      THEN conjunct2, THEN conjunct2, THEN conjunct2, THEN conjunct2, THEN conjunct2,
      THEN spec, THEN spec, THEN mp, OF conjI, OF bob(1) science(1)]
  note ta = LeaveSubreddit_inverse [of scenario "''alice''" "''science''",
      THEN conjunct2, THEN conjunct2, THEN conjunct2, THEN conjunct2, THEN conjunct2,
      THEN spec, THEN spec, THEN mp, OF conjI, OF alice(1) science(1)]
  have b1: "fst (LeaveSubreddit scenario ''bob'' ''science'') = Inr ()"
    using tb by (elim conjE)
  have b2: "map_option User.Subreddits
        (users (snd (LeaveSubreddit scenario ''bob'' ''science'')) ''bob'')
        = Some (User.Subreddits bob - {''science''})"
    using tb by (elim conjE)
  have b3: "map_option Members
        (subreddits (snd (LeaveSubreddit scenario ''bob'' ''science'')) ''science'')
        = Some (Members science - {''bob''})"
    using tb by (elim conjE)
  have "''science'' \<in> User.Subreddits bob \<and> ''bob'' \<in> Members science \<longrightarrow>
      snd (JoinSubreddit (snd (LeaveSubreddit scenario ''bob'' ''science''))
        ''bob'' ''science'') = scenario"
    using tb by (elim conjE)
  then have b4: "snd (JoinSubreddit (snd (LeaveSubreddit scenario ''bob'' ''science''))
        ''bob'' ''science'') = scenario"
    using mb by (rule mp)
  have a1: "fst (JoinSubreddit scenario ''alice'' ''science'') = Inr ()"
    using ta by (elim conjE)
  have a2: "map_option User.Subreddits
        (users (snd (JoinSubreddit scenario ''alice'' ''science'')) ''alice'')
        = Some (insert ''science'' (User.Subreddits alice))"
    using ta by (elim conjE)
  have a3: "map_option Members
        (subreddits (snd (JoinSubreddit scenario ''alice'' ''science'')) ''science'')
        = Some (insert ''alice'' (Members science))"
    using ta by (elim conjE)
  have "''science'' \<notin> User.Subreddits alice \<and> ''alice'' \<notin> Members science \<longrightarrow>
      snd (LeaveSubreddit (snd (JoinSubreddit scenario ''alice'' ''science''))
        ''alice'' ''science'') = scenario"
    using ta by (elim conjE)
  then have a4: "snd (LeaveSubreddit (snd (JoinSubreddit scenario ''alice'' ''science''))
        ''alice'' ''science'') = scenario"
    using na by (rule mp)
  note tc = LeaveSubreddit_inverse [of scenario "''carol''" "''science''"]
  have c1: "LeaveSubreddit scenario ''carol'' ''science'' = (Inl (NotFound ''user''), scenario)"
    using tc [THEN conjunct1] c by (rule mp)
  have c2: "JoinSubreddit scenario ''carol'' ''science'' = (Inl (NotFound ''user''), scenario)"
    using tc [THEN conjunct2, THEN conjunct2, THEN conjunct2, THEN conjunct1] c by (rule mp)
  note tk = LeaveSubreddit_inverse [of scenario "''bob''" "''cooking''"]
  have bk: "users scenario ''bob'' \<noteq> None \<and> subreddits scenario ''cooking'' = None"
    using bob(1) k by simp
  have k1: "LeaveSubreddit scenario ''bob'' ''cooking'' = (Inl (NotFound ''subreddit''), scenario)"
    using tk [THEN conjunct2, THEN conjunct1] bk by (rule mp)
  have k2: "JoinSubreddit scenario ''bob'' ''cooking'' = (Inl (NotFound ''subreddit''), scenario)"
    using tk [THEN conjunct2, THEN conjunct2, THEN conjunct2, THEN conjunct2, THEN conjunct1] bk
    by (rule mp)
  have r1: "users scenario ''bob'' \<noteq> None" "subreddits scenario ''science'' \<noteq> None"
    "users scenario ''alice'' \<noteq> None"
    using bob alice science by simp_all
  show ?thesis
    unfolding b1 b2 b3 b4 a1 a2 a3 a4 c1 c2 k1 k2
    using r1 c k bob(2) alice(2) science(2) by (simp add: NotFound_def)
qed

subsection \<open>Reading an inbox\<close>

text \<open>
  C10. \<open>GetDirectMessages\<close> for a registered user without an inbox returns no error
  and the empty sequence; it fails exactly when the username is not registered, with
  \<open>NotFound\<close>, whatever the inboxes hold. A new engine has no inbox, and the only step
  that gives a user an inbox is a \<open>SendDirectMessage\<close> to that user, whose message is
  then the inbox's only entry.
\<close>

theorem GetDirectMessages_lazy_inbox:
  "(users e u \<noteq> None \<and> directMessages e u = None \<longrightarrow> GetDirectMessages e u = Inr [])
   \<and> ((\<exists>err. GetDirectMessages e u = Inl err) \<longleftrightarrow> users e u = None)
   \<and> (users e u = None \<longrightarrow> GetDirectMessages e u = Inl (NotFound ''user''))
   \<and> directMessages NewRedditEngine u = None
   \<and> (step e e' \<and> directMessages e u = None \<and> directMessages e' u \<noteq> None \<longrightarrow>
        (\<exists>from content idn now.
           e' = snd (SendDirectMessage e from u content idn now)
           \<and> directMessages e' u =
               Some [DirectMessage (''dm_'' @ fmt_d idn) from u content now []]))"
proof -
  have a: "users e u \<noteq> None \<and> directMessages e u = None \<longrightarrow> GetDirectMessages e u = Inr []"
    by (auto simp: GetDirectMessages_def)
  have b: "(\<exists>err. GetDirectMessages e u = Inl err) \<longleftrightarrow> users e u = None"
    by (auto simp: GetDirectMessages_def split: option.splits)
  have c: "users e u = None \<longrightarrow> GetDirectMessages e u = Inl (NotFound ''user'')"
    by (simp add: GetDirectMessages_def NotFound_def)
  have d: "directMessages NewRedditEngine u = None"
    by (simp add: NewRedditEngine_def)
  have f: "\<exists>from content idn now.
           e' = snd (SendDirectMessage e from u content idn now)
           \<and> directMessages e' u =
               Some [DirectMessage (''dm_'' @ fmt_d idn) from u content now []]"
    if "step e e'" "directMessages e u = None" "directMessages e' u \<noteq> None"
    using that
  proof (cases rule: step.cases)
    case (step_SendDirectMessage sender recipient content idn now)
    then show ?thesis using that(2,3)
      by (auto simp: SendDirectMessage_def Let_def split: if_splits intro!: exI)
  next
    case (step_ReplyToDirectMessage order originalMsgID sender content idn now)
    then show ?thesis using that(2,3)
      by (auto simp: ReplyToDirectMessage_def Let_def split: option.splits if_splits)
  qed (use that(2,3) in \<open>auto simp: RegisterUser_def CreateSubreddit_def JoinSubreddit_def
         LeaveSubreddit_def CreatePost_def AddComment_def VotePost_def updateKarma_def Let_def
         split: option.splits if_splits\<close>)
  from a b c d f show ?thesis by blast
qed

theorem GetDirectMessages_lazy_inbox_witness:
  "users scenario ''alice'' \<noteq> None \<and> directMessages scenario ''alice'' = None
   \<and> GetDirectMessages scenario ''alice'' = Inr []
   \<and> users scenario ''carol'' = None
   \<and> GetDirectMessages scenario ''carol'' = Inl (Errorf ''user not found'')
   \<and> step scenario (snd (SendDirectMessage scenario ''bob'' ''alice'' ''hi'' 6 7))
   \<and> map_option length
        (directMessages (snd (SendDirectMessage scenario ''bob'' ''alice'' ''hi'' 6 7)) ''alice'')
       = Some 1"
proof -
  let ?e' = "snd (SendDirectMessage scenario ''bob'' ''alice'' ''hi'' 6 7)"
  have h: "users scenario ''alice'' \<noteq> None" "directMessages scenario ''alice'' = None"
    "users scenario ''carol'' = None"
    by (simp_all add: scenario_fields)
  have st: "step scenario ?e'"
    by (rule step_SendDirectMessage)
  have ne: "directMessages ?e' ''alice'' \<noteq> None"
    by (simp add: SendDirectMessage_def scenario_fields Let_def)
  note t = GetDirectMessages_lazy_inbox [of scenario "''alice''" ?e']
  note t' = GetDirectMessages_lazy_inbox [of scenario "''carol''" ?e']
  from t h have g: "GetDirectMessages scenario ''alice'' = Inr []"
    by blast
  from t' h have g': "GetDirectMessages scenario ''carol'' = Inl (NotFound ''user'')"
    by blast
  from t st h(2) ne obtain dm where "directMessages ?e' ''alice'' = Some [dm]"
    by blast
  with h st g g' show ?thesis
    by (simp add: NotFound_def)
qed

subsection \<open>The bubble sort of the feed\<close>

lemma length_swapAdjacent: "length (swapAdjacent xs j) = length xs"
  by (simp add: swapAdjacent_def)

lemma mset_swapAdjacent: "j + 1 < length xs \<Longrightarrow> mset (swapAdjacent xs j) = mset xs"
  unfolding swapAdjacent_def by (rule mset_swap) simp_all

lemma nth_swapAdjacent:
  "j + 1 < length xs \<Longrightarrow> l < length xs \<Longrightarrow>
   swapAdjacent xs j ! l = (if l = j then xs ! (j + 1) else if l = j + 1 then xs ! j else xs ! l)"
  by (simp add: swapAdjacent_def nth_list_update)

lemma split_adjacent:
  assumes "j + 1 < length xs"
  shows "xs = take j xs @ [xs ! j, xs ! (j + 1)] @ drop (j + 2) xs"
proof -
  have "xs = take j xs @ drop j xs" by simp
  also have "drop j xs = xs ! j # drop (Suc j) xs"
    using assms by (simp add: Cons_nth_drop_Suc)
  also have "drop (Suc j) xs = xs ! (j + 1) # drop (j + 2) xs"
    using assms by (simp add: Cons_nth_drop_Suc)
  finally show ?thesis by simp
qed

lemma swapAdjacent_split:
  assumes "j + 1 < length xs"
  shows "swapAdjacent xs j = take j xs @ [xs ! (j + 1), xs ! j] @ drop (j + 2) xs"
proof (rule nth_equalityI)
  show "length (swapAdjacent xs j) = length (take j xs @ [xs ! (j + 1), xs ! j] @ drop (j + 2) xs)"
    using assms by (simp add: length_swapAdjacent)
next
  fix l assume "l < length (swapAdjacent xs j)"
  then have l: "l < length xs" by (simp add: length_swapAdjacent)
  consider "l < j" | "l = j" | "l = j + 1" | "j + 2 \<le> l" by linarith
  then show "swapAdjacent xs j ! l = (take j xs @ [xs ! (j + 1), xs ! j] @ drop (j + 2) xs) ! l"
  proof cases
    case 1
    then show ?thesis using assms l by (simp add: nth_swapAdjacent nth_append)
  next
    case 2
    then show ?thesis using assms l by (simp add: nth_swapAdjacent nth_append)
  next
    case 3
    then show ?thesis using assms l by (simp add: nth_swapAdjacent nth_append)
  next
    case 4
    then obtain d where d: "l = j + 2 + d" by (metis le_Suc_ex)
    show ?thesis using assms l unfolding d
      by (simp add: nth_swapAdjacent nth_append add.commute add.left_commute)
  qed
qed

lemma filter_swapAdjacent:
  assumes "j + 1 < length xs" "\<not> (P (xs ! j) \<and> P (xs ! (j + 1)))"
  shows "filter P (swapAdjacent xs j) = filter P xs"
proof -
  have "filter P (swapAdjacent xs j) =
      filter P (take j xs) @ filter P [xs ! (j + 1), xs ! j] @ filter P (drop (j + 2) xs)"
    by (simp add: swapAdjacent_split [OF assms(1)])
  also have "filter P [xs ! (j + 1), xs ! j] = filter P [xs ! j, xs ! (j + 1)]"
    using assms(2) by auto
  also have "filter P (take j xs) @ filter P [xs ! j, xs ! (j + 1)] @ filter P (drop (j + 2) xs)
      = filter P (take j xs @ [xs ! j, xs ! (j + 1)] @ drop (j + 2) xs)"
    by simp
  also have "\<dots> = filter P xs"
    using split_adjacent [OF assms(1)] by simp
  finally show ?thesis .
qed
lemma sortPosts_inner_result:
  assumes "m < length ps" "j \<le> m"
  shows "\<exists>ps'. sortPosts_inner h j (int m) ps = Inr ps'
     \<and> length ps' = length ps \<and> mset ps' = mset ps
     \<and> (\<forall>\<tau>. filter (\<lambda>a. Post.CreatedAt (h a) = \<tau>) ps' =
              filter (\<lambda>a. Post.CreatedAt (h a) = \<tau>) ps)
     \<and> (\<forall>l. m < l \<longrightarrow> l < length ps \<longrightarrow> ps' ! l = ps ! l)
     \<and> (\<forall>l<j. ps' ! l = ps ! l)
     \<and> ((\<forall>l<j. Post.CreatedAt (h (ps ! j)) \<le> Post.CreatedAt (h (ps ! l))) \<longrightarrow>
        (\<forall>l<m. Post.CreatedAt (h (ps' ! m)) \<le> Post.CreatedAt (h (ps' ! l))))"
  using assms
proof (induction "m - j" arbitrary: j ps)
  case 0
  then have "j = m" by simp
  then have "sortPosts_inner h j (int m) ps = Inr ps"
    by (simp add: sortPosts_inner.simps)
  with \<open>j = m\<close> show ?case by simp
next
  case (Suc d)
  then have jm: "j < m" and j1: "j + 1 < length ps" by simp_all
  define ps1 where "ps1 =
    (if Post.CreatedAt (h (ps ! j)) < Post.CreatedAt (h (ps ! (j + 1)))
     then swapAdjacent ps j else ps)"
  have unfold: "sortPosts_inner h j (int m) ps = sortPosts_inner h (j + 1) (int m) ps1"
    using jm j1 by (subst sortPosts_inner.simps) (simp add: ps1_def)
  have len1: "length ps1 = length ps"
    by (simp add: ps1_def length_swapAdjacent)
  have mset1: "mset ps1 = mset ps"
    using j1 by (simp add: ps1_def mset_swapAdjacent)
  have filt1: "filter (\<lambda>a. Post.CreatedAt (h a) = \<tau>) ps1 =
      filter (\<lambda>a. Post.CreatedAt (h a) = \<tau>) ps" for \<tau>
    using j1 by (auto simp: ps1_def intro!: filter_swapAdjacent)
  have nth1: "ps1 ! l = ps ! l" if "l < length ps" "l \<noteq> j" "l \<noteq> j + 1" for l
    using that j1 by (simp add: ps1_def nth_swapAdjacent)
  have ord1: "Post.CreatedAt (h (ps1 ! (j + 1))) \<le> Post.CreatedAt (h (ps1 ! j))"
    using j1 by (simp add: ps1_def nth_swapAdjacent)
  have min1: "Post.CreatedAt (h (ps1 ! (j + 1))) \<le> Post.CreatedAt (h (ps ! j))"
    using j1 by (simp add: ps1_def nth_swapAdjacent)
  have d: "d = m - (j + 1)" using Suc.hyps(2) by simp
  have m1: "m < length ps1" using Suc.prems len1 by simp
  have jm1: "j + 1 \<le> m" using jm by simp
  from Suc.hyps(1) [OF d m1 jm1] obtain ps' where
    r: "sortPosts_inner h (j + 1) (int m) ps1 = Inr ps'"
    and len': "length ps' = length ps1"
    and mset': "mset ps' = mset ps1"
    and filt': "\<forall>\<tau>. filter (\<lambda>a. Post.CreatedAt (h a) = \<tau>) ps' =
              filter (\<lambda>a. Post.CreatedAt (h a) = \<tau>) ps1"
    and above': "\<forall>l. m < l \<longrightarrow> l < length ps1 \<longrightarrow> ps' ! l = ps1 ! l"
    and below': "\<forall>l<j + 1. ps' ! l = ps1 ! l"
    and min': "(\<forall>l<j + 1. Post.CreatedAt (h (ps1 ! (j + 1))) \<le> Post.CreatedAt (h (ps1 ! l))) \<longrightarrow>
        (\<forall>l<m. Post.CreatedAt (h (ps' ! m)) \<le> Post.CreatedAt (h (ps' ! l)))"
    by blast
  have above: "\<forall>l. m < l \<longrightarrow> l < length ps \<longrightarrow> ps' ! l = ps ! l"
    using above' len1 nth1 jm by auto
  have below: "\<forall>l<j. ps' ! l = ps ! l"
    using below' nth1 j1 by auto
  have min: "\<forall>l<m. Post.CreatedAt (h (ps' ! m)) \<le> Post.CreatedAt (h (ps' ! l))"
    if h: "\<forall>l<j. Post.CreatedAt (h (ps ! j)) \<le> Post.CreatedAt (h (ps ! l))"
  proof -
    have "Post.CreatedAt (h (ps1 ! (j + 1))) \<le> Post.CreatedAt (h (ps1 ! l))" if "l < j + 1" for l
    proof (cases "l = j")
      case True
      then show ?thesis using ord1 by simp
    next
      case False
      with that have lj: "l < j" by simp
      then have "ps1 ! l = ps ! l" using nth1 j1 by simp
      moreover have "Post.CreatedAt (h (ps ! j)) \<le> Post.CreatedAt (h (ps ! l))"
        using h lj by simp
      ultimately show ?thesis using min1 by simp
    qed
    with min' show ?thesis by blast
  qed
  show ?case
    unfolding unfold
    using r len' len1 mset' mset1 filt' filt1 above below min
    by (intro exI [of _ ps']) simp
qed
lemma sortPosts_outer_result:
  assumes "length ps = n"
    and "sorted_wrt (\<lambda>a b. Post.CreatedAt (h b) \<le> Post.CreatedAt (h a)) (drop (n - i) ps)"
    and "\<forall>a \<in> set (take (n - i) ps). \<forall>b \<in> set (drop (n - i) ps).
           Post.CreatedAt (h b) \<le> Post.CreatedAt (h a)"
  shows "\<exists>ps'. sortPosts_outer h i n ps = Inr ps' \<and> mset ps' = mset ps
     \<and> (\<forall>\<tau>. filter (\<lambda>a. Post.CreatedAt (h a) = \<tau>) ps' =
              filter (\<lambda>a. Post.CreatedAt (h a) = \<tau>) ps)
     \<and> sorted_wrt (\<lambda>a b. Post.CreatedAt (h b) \<le> Post.CreatedAt (h a)) ps'"
  using assms
proof (induction "n - i" arbitrary: i ps)
  case 0
  then have "sortPosts_outer h i n ps = Inr ps"
    by (simp add: sortPosts_outer.simps)
  with 0 show ?case by simp
next
  case (Suc d)
  let ?ge = "\<lambda>a b. Post.CreatedAt (h b) \<le> Post.CreatedAt (h a)"
  show ?case
  proof (cases "i + 1 < n")
    case False
    with Suc.hyps(2) have ni: "n - i = 1" by simp
    have r: "sortPosts_outer h i n ps = Inr ps"
      using False by (simp add: sortPosts_outer.simps)
    have "sorted_wrt ?ge (take 1 ps @ drop 1 ps)"
      unfolding sorted_wrt_append
      using Suc.prems(2,3) ni by (cases ps) simp_all
    then have "sorted_wrt ?ge ps" by simp
    with r show ?thesis by simp
  next
    case True
    define m where "m = n - i - 1"
    have m: "int n - int i - 1 = int m" "m < length ps" "m + 1 = n - i" "n - (i + 1) = m"
      using True Suc.prems(1) by (simp_all add: m_def)
    from sortPosts_inner_result [of m ps 0 h] m(2) obtain ps1 where
      r1: "sortPosts_inner h 0 (int m) ps = Inr ps1"
      and len1: "length ps1 = length ps"
      and mset1: "mset ps1 = mset ps"
      and filt1: "\<forall>\<tau>. filter (\<lambda>a. Post.CreatedAt (h a) = \<tau>) ps1 =
              filter (\<lambda>a. Post.CreatedAt (h a) = \<tau>) ps"
      and above1: "\<forall>l. m < l \<longrightarrow> l < length ps \<longrightarrow> ps1 ! l = ps ! l"
      and min1: "\<forall>l<m. Post.CreatedAt (h (ps1 ! m)) \<le> Post.CreatedAt (h (ps1 ! l))"
      by auto
    have unfold: "sortPosts_outer h i n ps = sortPosts_outer h (i + 1) n ps1"
      using True r1 m(1) by (subst sortPosts_outer.simps) simp
    have drop1: "drop (m + 1) ps1 = drop (m + 1) ps"
      using above1 len1 by (intro nth_equalityI) simp_all
    have parts: "mset (take (m + 1) ps1) + mset (drop (m + 1) ps1) =
        mset (take (m + 1) ps) + mset (drop (m + 1) ps)"
      using mset1 by (simp flip: mset_append)
    have take1: "mset (take (m + 1) ps1) = mset (take (m + 1) ps)"
      using parts [unfolded drop1] by simp
    then have set1: "set (take (m + 1) ps1) = set (take (m + 1) ps)"
      by (rule mset_eq_setD)
    have dropm: "drop m ps1 = ps1 ! m # drop (m + 1) ps"
      using m(2) len1 drop1 by (simp flip: Cons_nth_drop_Suc)
    have "take (m + 1) ps1 ! m = ps1 ! m" "m < length (take (m + 1) ps1)"
      using m(2) len1 by simp_all
    then have "ps1 ! m \<in> set (take (m + 1) ps1)"
      by (metis nth_mem)
    then have pm: "ps1 ! m \<in> set (take (m + 1) ps)"
      unfolding set1 .
    have big: "\<forall>b \<in> set (drop (m + 1) ps). ?ge (ps1 ! m) b"
      using Suc.prems(3) pm m(3) by simp
    have sorted1: "sorted_wrt ?ge (drop (n - (i + 1)) ps1)"
      unfolding m(4) dropm using big Suc.prems(2) m(3) by simp
    have cross1: "\<forall>a \<in> set (take (n - (i + 1)) ps1). \<forall>b \<in> set (drop (n - (i + 1)) ps1). ?ge a b"
      unfolding m(4) dropm
    proof (intro ballI)
      fix a b assume a: "a \<in> set (take m ps1)" and b: "b \<in> set (ps1 ! m # drop (m + 1) ps)"
      from a obtain l where l: "l < m" "a = ps1 ! l"
        using m(2) len1 by (auto simp: in_set_conv_nth)
      have a1: "?ge a (ps1 ! m)" using min1 l by simp
      have "a \<in> set (take (m + 1) ps1)"
        using a set_take_subset_set_take [of m "m + 1" ps1] by auto
      then have "a \<in> set (take (n - i) ps)" using set1 m(3) by simp
      then have a2: "\<forall>b \<in> set (drop (n - i) ps). ?ge a b"
        using Suc.prems(3) by simp
      from b a1 a2 m(3) show "?ge a b" by auto
    qed
    have d: "d = n - (i + 1)" using Suc.hyps(2) by simp
    have n1: "length ps1 = n" using len1 Suc.prems(1) by simp
    from Suc.hyps(1) [OF d n1 sorted1 cross1] obtain ps' where
      "sortPosts_outer h (i + 1) n ps1 = Inr ps'" "mset ps' = mset ps1"
      "\<forall>\<tau>. filter (\<lambda>a. Post.CreatedAt (h a) = \<tau>) ps' =
              filter (\<lambda>a. Post.CreatedAt (h a) = \<tau>) ps1"
      "sorted_wrt ?ge ps'"
      by blast
    then show ?thesis
      unfolding unfold using mset1 filt1 by (intro exI [of _ ps']) simp
  qed
qed

lemma sortPosts_result:
  "\<exists>ps'. sortPosts h ps = Inr ps' \<and> mset ps' = mset ps
     \<and> (\<forall>\<tau>. filter (\<lambda>a. Post.CreatedAt (h a) = \<tau>) ps' =
              filter (\<lambda>a. Post.CreatedAt (h a) = \<tau>) ps)
     \<and> sorted_wrt (\<lambda>a b. Post.CreatedAt (h b) \<le> Post.CreatedAt (h a)) ps'"
  unfolding sortPosts_def
  by (rule sortPosts_outer_result) simp_all

subsection \<open>Invariants of runs\<close>

lemma step_joinedExist:
  assumes "step e e'" "joinedExist e"
  shows "joinedExist e'"
  using assms(1)
proof (cases rule: step.cases)
  case (step_JoinSubreddit username subredditName)
  then show ?thesis using assms(2)
    by (auto simp: joinedExist_def JoinSubreddit_def split: option.splits if_splits)
next
  case (step_LeaveSubreddit username subredditName)
  then show ?thesis using assms(2)
    by (auto simp: joinedExist_def LeaveSubreddit_def split: option.splits if_splits)
next
  case (step_CreatePost title content author subredditName idn now)
  then show ?thesis using assms(2)
    by (auto simp: joinedExist_def CreatePost_def Let_def split: option.splits if_splits)
next
  case (step_ReplyToDirectMessage order originalMsgID sender content idn now)
  then show ?thesis using assms(2)
    by (auto simp: joinedExist_def ReplyToDirectMessage_def Let_def split: option.splits)
next
  case (step_VotePost postID upvote)
  then show ?thesis using assms(2)
    by (auto simp: joinedExist_def VotePost_def updateKarma_def Let_def
        split: option.splits if_splits)
qed (use assms(2) in \<open>auto simp: joinedExist_def RegisterUser_def CreateSubreddit_def
       AddComment_def SendDirectMessage_def Let_def split: option.splits if_splits\<close>)

lemma step_postsSeparate:
  assumes "step e e'" "postsSeparate e"
  shows "postsSeparate e'"
  using assms(1)
proof (cases rule: step.cases)
  case (step_CreatePost title content author subredditName idn now)
  show ?thesis
  proof (cases "subreddits e subredditName")
    case None
    with step_CreatePost assms(2) show ?thesis by (simp add: CreatePost_def)
  next
    case (Some subreddit)
    have fresh: "nextPost e \<notin> set (Subreddit.Posts sr)" if "subreddits e n = Some sr" for n sr
      using assms(2) that unfolding postsSeparate_def by fastforce
    have e': "subreddits e' = (subreddits e)(subredditName \<mapsto>
          subreddit\<lparr>Subreddit.Posts := Subreddit.Posts subreddit @ [nextPost e]\<rparr>)"
        "nextPost e' = Suc (nextPost e)"
      using step_CreatePost Some by (simp_all add: CreatePost_def Let_def)
    show ?thesis
      unfolding postsSeparate_def e'
      using assms(2) fresh Some
      by (auto simp: postsSeparate_def less_Suc_eq split: if_splits) (blast+)?
  qed
next
  case (step_ReplyToDirectMessage order originalMsgID sender content idn now)
  then show ?thesis using assms(2)
    by (auto simp: postsSeparate_def ReplyToDirectMessage_def Let_def split: option.splits)
next
  case (step_VotePost postID upvote)
  then show ?thesis using assms(2)
    by (auto simp: postsSeparate_def VotePost_def updateKarma_def Let_def
        split: option.splits if_splits)
next
  case (step_JoinSubreddit username subredditName)
  then show ?thesis using assms(2)
    by (auto simp: postsSeparate_def JoinSubreddit_def split: option.splits if_splits) (blast+)?
next
  case (step_LeaveSubreddit username subredditName)
  then show ?thesis using assms(2)
    by (auto simp: postsSeparate_def LeaveSubreddit_def split: option.splits if_splits) (blast+)?
next
  case (step_CreateSubreddit name description creator now)
  then show ?thesis using assms(2)
    by (auto simp: postsSeparate_def CreateSubreddit_def split: option.splits if_splits) (blast+)?
qed (use assms(2) in \<open>auto simp: postsSeparate_def RegisterUser_def
       AddComment_def SendDirectMessage_def Let_def split: option.splits if_splits\<close>)

lemma reachable_invariants:
  assumes "reachable e"
  shows "joinedExist e \<and> postsSeparate e"
  using assms
proof (induction rule: reachable.induct)
  case reachable_New
  show ?case by (simp add: joinedExist_def postsSeparate_def NewRedditEngine_def)
next
  case (reachable_step e e')
  then show ?case by (simp add: step_joinedExist step_postsSeparate)
qed

subsection \<open>The feed\<close>

lemma collectFeed_result:
  "\<forall>n \<in> set names. subreddits e n \<noteq> None \<Longrightarrow>
   collectFeed e names feed = Inr (feed @ postsOf e names)"
  by (induction names arbitrary: feed) (auto simp: postsOf_def)

lemma collectFeed_missing:
  "\<exists>n \<in> set names. subreddits e n = None \<Longrightarrow> collectFeed e names feed = Inl NilDereference"
  by (induction names arbitrary: feed) (auto split: option.splits)

lemma set_postsOf:
  "set (postsOf e names) = (\<Union>n \<in> set names. set (Subreddit.Posts (the (subreddits e n))))"
  by (simp add: postsOf_def)

lemma distinct_postsOf:
  assumes "postsSeparate e" "distinct names" "\<forall>n \<in> set names. subreddits e n \<noteq> None"
  shows "distinct (postsOf e names)"
  using assms(2,3)
proof (induction names)
  case Nil
  show ?case by (simp add: postsOf_def)
next
  case (Cons n ns)
  from Cons.prems obtain sr where sr: "subreddits e n = Some sr" by auto
  have d: "distinct (Subreddit.Posts sr)"
    using assms(1) sr unfolding postsSeparate_def by blast
  have "set (Subreddit.Posts sr) \<inter> set (Subreddit.Posts (the (subreddits e n'))) = {}"
    if "n' \<in> set ns" for n'
  proof -
    from that Cons.prems obtain sr' where sr': "subreddits e n' = Some sr'" "n \<noteq> n'" by auto
    with assms(1) sr show ?thesis unfolding postsSeparate_def by fastforce
  qed
  then have "set (Subreddit.Posts sr) \<inter> set (postsOf e ns) = {}"
    unfolding set_postsOf by blast
  moreover have "postsOf e (n # ns) = Subreddit.Posts sr @ postsOf e ns"
    using sr by (simp add: postsOf_def)
  moreover have "distinct (postsOf e ns)"
    using Cons by simp
  ultimately show ?case using d by simp
qed

lemma GetUserFeed_result:
  assumes "users e u = Some user" "\<forall>n \<in> set order. subreddits e n \<noteq> None"
  shows "\<exists>feed. GetUserFeed order e u = Inr feed
     \<and> mset feed = mset (postsOf e order)
     \<and> sorted_wrt (\<lambda>a b. Post.CreatedAt (postHeap e b) \<le> Post.CreatedAt (postHeap e a)) feed
     \<and> (\<forall>\<tau>. filter (\<lambda>a. Post.CreatedAt (postHeap e a) = \<tau>) feed =
              filter (\<lambda>a. Post.CreatedAt (postHeap e a) = \<tau>) (postsOf e order))"
proof -
  have g: "GetUserFeed order e u = sortPosts (postHeap e) (postsOf e order)"
    using assms by (simp add: GetUserFeed_def collectFeed_result)
  show ?thesis
    unfolding g
    using sortPosts_result [of "postHeap e" "postsOf e order"] by blast
qed

text \<open>
  C3. \<open>GetUserFeed\<close> fails with \<open>NotFound\<close> for a username that is not registered.
  For a registered user of an engine that a run has produced, and for any order in which
  the joined set may be visited, it returns the posts of the joined subreddits, each
  subreddit's posts concatenated in that order and then sorted by creation time, latest
  first: the result has the same posts with the same multiplicities, it is in descending
  order of creation time, posts of the same creation time keep the order they had in the
  concatenation (the sort is stable), and no post occurs twice.
\<close>

theorem GetUserFeed_sorted:
  "(users e u = None \<longrightarrow> GetUserFeed order e u = Inl (NotFound ''user''))
   \<and> (\<forall>user. reachable e \<and> users e u = Some user
         \<and> distinct order \<and> set order = User.Subreddits user \<longrightarrow>
        (\<exists>feed. GetUserFeed order e u = Inr feed
           \<and> mset feed = mset (postsOf e order)
           \<and> sorted_wrt (\<lambda>a b. Post.CreatedAt (postHeap e b) \<le> Post.CreatedAt (postHeap e a))
                feed
           \<and> (\<forall>\<tau>. filter (\<lambda>a. Post.CreatedAt (postHeap e a) = \<tau>) feed =
                    filter (\<lambda>a. Post.CreatedAt (postHeap e a) = \<tau>) (postsOf e order))
           \<and> distinct feed))"
proof (intro conjI allI impI)
  assume "users e u = None"
  then show "GetUserFeed order e u = Inl (NotFound ''user'')"
    by (simp add: GetUserFeed_def NotFound_def)
next
  fix user
  assume h: "reachable e \<and> users e u = Some user
         \<and> distinct order \<and> set order = User.Subreddits user"
  then have inv: "joinedExist e" "postsSeparate e"
    using reachable_invariants by simp_all
  have ex: "\<forall>n \<in> set order. subreddits e n \<noteq> None"
    using inv(1) h unfolding joinedExist_def by blast
  from GetUserFeed_result [OF _ ex, of u user] h obtain feed where
    f: "GetUserFeed order e u = Inr feed" "mset feed = mset (postsOf e order)"
      "sorted_wrt (\<lambda>a b. Post.CreatedAt (postHeap e b) \<le> Post.CreatedAt (postHeap e a)) feed"
      "\<forall>\<tau>. filter (\<lambda>a. Post.CreatedAt (postHeap e a) = \<tau>) feed =
              filter (\<lambda>a. Post.CreatedAt (postHeap e a) = \<tau>) (postsOf e order)"
    by blast
  have "distinct (postsOf e order)"
    using distinct_postsOf [OF inv(2) _ ex] h by simp
  then have "distinct feed"
    using f(2) by (metis mset_eq_imp_distinct_iff)
  with f show "\<exists>feed. GetUserFeed order e u = Inr feed
           \<and> mset feed = mset (postsOf e order)
           \<and> sorted_wrt (\<lambda>a b. Post.CreatedAt (postHeap e b) \<le> Post.CreatedAt (postHeap e a))
                feed
           \<and> (\<forall>\<tau>. filter (\<lambda>a. Post.CreatedAt (postHeap e a) = \<tau>) feed =
                    filter (\<lambda>a. Post.CreatedAt (postHeap e a) = \<tau>) (postsOf e order))
           \<and> distinct feed"
    by blast
qed

lemma reachable_scenario: "reachable scenario"
  unfolding scenario_def
  by (intro reachable_step [OF _ step_CreatePost] reachable_step [OF _ step_JoinSubreddit]
      reachable_step [OF _ step_CreateSubreddit] reachable_step [OF _ step_RegisterUser]
      reachable_New)

lemma reachable_feedScenario: "reachable feedScenario"
  unfolding feedScenario_def
  by (intro reachable_step [OF _ step_CreatePost] reachable_step [OF _ step_JoinSubreddit]
      reachable_step [OF _ step_CreateSubreddit] reachable_scenario)

lemma fmt_d_11: "fmt_d 11 = ''11''"
  by code_simp

lemma fmt_d_12: "fmt_d 12 = ''12''"
  by code_simp

lemma feedScenario_fields:
  "users feedScenario ''bob'' = Some \<lparr>User.Username = ''bob'', User.Password = ''pw'',
       User.Karma = 0, User.CreatedAt = 2, User.Subreddits = {''science'', ''art''}\<rparr>"
  "subreddits feedScenario ''science'' = Some \<lparr>Name = ''science'', Description = ''d'',
       Creator = ''alice'', Subreddit.CreatedAt = 3, Subreddit.Posts = [0, 2],
       Members = {''bob''}\<rparr>"
  "subreddits feedScenario ''art'' = Some \<lparr>Name = ''art'', Description = ''a'',
       Creator = ''bob'', Subreddit.CreatedAt = 10, Subreddit.Posts = [Suc 0],
       Members = {''bob''}\<rparr>"
  "Post.CreatedAt (postHeap feedScenario 0) = 5"
  "Post.CreatedAt (postHeap feedScenario (Suc 0)) = 20"
  "Post.CreatedAt (postHeap feedScenario 2) = 5"
  by (auto simp: feedScenario_def CreatePost_def JoinSubreddit_def CreateSubreddit_def
      scenario_fields fmt_d_11 fmt_d_12 Let_def)

lemma GetUserFeed_feedScenario:
  "GetUserFeed [''science'', ''art''] feedScenario ''bob'' = Inr [1, 0, 2]"
  "GetUserFeed [''art'', ''science''] feedScenario ''bob'' = Inr [1, 0, 2]"
  by (simp_all add: GetUserFeed_def feedScenario_fields sortPosts_def sortPosts_outer.simps
      sortPosts_inner.simps swapAdjacent_def)

theorem GetUserFeed_sorted_witness:
  "reachable feedScenario
   \<and> users feedScenario ''bob'' \<noteq> None
   \<and> distinct [''science'', ''art'']
   \<and> set [''science'', ''art''] = User.Subreddits (the (users feedScenario ''bob''))
   \<and> GetUserFeed [''science'', ''art''] feedScenario ''bob'' = Inr [1, 0, 2]
   \<and> distinct (projr (GetUserFeed [''science'', ''art''] feedScenario ''bob''))
   \<and> users feedScenario ''carol'' = None
   \<and> GetUserFeed [] feedScenario ''carol'' = Inl (Errorf ''user not found'')"
proof -
  define user where "user = \<lparr>User.Username = ''bob'', User.Password = ''pw'',
       User.Karma = 0, User.CreatedAt = 2, User.Subreddits = {''science'', ''art''}\<rparr>"
  have u: "users feedScenario ''bob'' = Some user"
    and s: "set [''science'', ''art''] = User.Subreddits user"
    by (simp_all add: feedScenario_fields user_def)
  have d: "distinct [''science'', ''art'']" by simp
  have c: "users feedScenario ''carol'' = None"
    by (simp add: feedScenario_def CreatePost_def JoinSubreddit_def CreateSubreddit_def
        scenario_fields Let_def)
  note t = GetUserFeed_sorted [of feedScenario "''bob''" "[''science'', ''art'']"]
  from t reachable_feedScenario u d s obtain feed where
    "GetUserFeed [''science'', ''art''] feedScenario ''bob'' = Inr feed" "distinct feed"
    by blast
  then have "distinct (projr (GetUserFeed [''science'', ''art''] feedScenario ''bob''))"
    by simp
  moreover from GetUserFeed_sorted [of feedScenario "''carol''" "[]"] c
  have "GetUserFeed [] feedScenario ''carol'' = Inl (NotFound ''user'')"
    by blast
  ultimately show ?thesis
    using reachable_feedScenario u s c GetUserFeed_feedScenario(1)
    by (simp add: NotFound_def)
qed

text \<open>
  C9. That every name in a user's joined set is a key of \<open>subreddits\<close> holds in a new
  engine and is preserved by every step of the engine, so it holds in every engine a run
  produces. Where it holds, the lookup of a joined name in the loop of \<open>GetUserFeed\<close>
  finds a subreddit, and \<open>GetUserFeed\<close> returns a feed for every registered user,
  without a panic.
\<close>

theorem joined_subreddits_exist:
  "joinedExist NewRedditEngine
   \<and> (joinedExist e \<and> step e e' \<longrightarrow> joinedExist e')
   \<and> (reachable e \<longrightarrow> joinedExist e)
   \<and> (\<forall>user. joinedExist e \<and> users e u = Some user \<and> set order = User.Subreddits user \<longrightarrow>
        (\<forall>n \<in> set order. subreddits e n \<noteq> None)
        \<and> (\<exists>feed. collectFeed e order [] = Inr feed)
        \<and> (\<exists>feed. GetUserFeed order e u = Inr feed))"
proof (intro conjI allI impI)
  show "joinedExist NewRedditEngine"
    by (simp add: joinedExist_def NewRedditEngine_def)
next
  assume "joinedExist e \<and> step e e'"
  then show "joinedExist e'" using step_joinedExist by blast
next
  assume "reachable e"
  then show "joinedExist e" using reachable_invariants by blast
next
  fix user
  assume h: "joinedExist e \<and> users e u = Some user \<and> set order = User.Subreddits user"
  then have ex: "\<forall>n \<in> set order. subreddits e n \<noteq> None"
    unfolding joinedExist_def by blast
  then show "\<forall>n \<in> set order. subreddits e n \<noteq> None" .
  show "\<exists>feed. collectFeed e order [] = Inr feed"
    using collectFeed_result [OF ex] by blast
  show "\<exists>feed. GetUserFeed order e u = Inr feed"
    using GetUserFeed_result [OF _ ex, of u user] h by blast
qed

theorem joined_subreddits_exist_witness:
  "reachable scenario \<and> joinedExist scenario
   \<and> step scenario (snd (LeaveSubreddit scenario ''bob'' ''science''))
   \<and> joinedExist (snd (LeaveSubreddit scenario ''bob'' ''science''))
   \<and> users scenario ''bob'' \<noteq> None
   \<and> set [''science''] = User.Subreddits (the (users scenario ''bob''))
   \<and> subreddits scenario ''science'' \<noteq> None
   \<and> \<not> isl (GetUserFeed [''science''] scenario ''bob'')"
proof -
  let ?e' = "snd (LeaveSubreddit scenario ''bob'' ''science'')"
  note t = joined_subreddits_exist [of scenario ?e' "''bob''" "[''science'']"]
  have st: "step scenario ?e'" by (rule step_LeaveSubreddit)
  from t reachable_scenario have j: "joinedExist scenario" by blast
  from t j st have j': "joinedExist ?e'" by blast
  define user where "user = \<lparr>User.Username = ''bob'', User.Password = ''pw'', User.Karma = 0,
       User.CreatedAt = 2, User.Subreddits = {''science''}\<rparr>"
  have u: "users scenario ''bob'' = Some user"
    and s: "set [''science''] = User.Subreddits user"
    by (simp_all add: scenario_fields user_def)
  from t j u s have "\<forall>n \<in> set [''science'']. subreddits scenario n \<noteq> None"
    by blast
  then have x: "subreddits scenario ''science'' \<noteq> None" by simp
  from t j u s obtain feed where "GetUserFeed [''science''] scenario ''bob'' = Inr feed"
    by blast
  then have "\<not> isl (GetUserFeed [''science''] scenario ''bob'')" by simp
  with reachable_scenario j st j' u s x show ?thesis by simp
qed

subsection \<open>Replies to direct messages\<close>

lemma scanInbox_Some:
  "scanInbox ms X = Some i \<Longrightarrow> i < length ms \<and> DirectMessage.ID (ms ! i) = X"
  by (induction ms arbitrary: i) (auto split: if_splits)

lemma scanInbox_None: "scanInbox ms X = None \<longleftrightarrow> X \<notin> DirectMessage.ID ` set ms"
  by (induction ms) auto

lemma scanInboxes_Some:
  "scanInboxes e ks X cur = Some (k, i) \<Longrightarrow>
   cur = Some (k, i) \<or> (k \<in> set ks \<and> (\<exists>ms. directMessages e k = Some ms \<and> scanInbox ms X = Some i))"
  by (induction ks arbitrary: cur) (fastforce split: option.splits)+

lemma scanInboxes_None:
  "scanInboxes e ks X cur = None \<longleftrightarrow>
   cur = None \<and> (\<forall>k \<in> set ks. \<forall>ms. directMessages e k = Some ms \<longrightarrow> scanInbox ms X = None)"
  by (induction ks arbitrary: cur) (auto split: option.splits)

lemma addReply_simps:
  "DirectMessage.Replies (addReply m r) = DirectMessage.Replies m @ [r]"
  "withoutReplies (addReply m r) = withoutReplies m"
  by (cases m; simp)+

lemma carriesID_Some:
  "carriesID e X k i \<longleftrightarrow>
   (\<exists>ms. directMessages e k = Some ms \<and> i < length ms \<and> DirectMessage.ID (ms ! i) = X)"
  by (auto simp: carriesID_def inbox_def split: option.splits)

lemma carriesID_exists:
  "(\<exists>k i. carriesID e X k i) \<longleftrightarrow>
   (\<exists>k ms. directMessages e k = Some ms \<and> X \<in> DirectMessage.ID ` set ms)"
proof
  assume "\<exists>k i. carriesID e X k i"
  then obtain k i ms where "directMessages e k = Some ms" "i < length ms"
      "DirectMessage.ID (ms ! i) = X"
    unfolding carriesID_Some by blast
  then have "directMessages e k = Some ms \<and> X \<in> DirectMessage.ID ` set ms"
    by (metis image_eqI nth_mem)
  then show "\<exists>k ms. directMessages e k = Some ms \<and> X \<in> DirectMessage.ID ` set ms"
    by blast
next
  assume "\<exists>k ms. directMessages e k = Some ms \<and> X \<in> DirectMessage.ID ` set ms"
  then obtain k ms m where "directMessages e k = Some ms" "m \<in> set ms" "DirectMessage.ID m = X"
    by auto
  then obtain i where "directMessages e k = Some ms" "i < length ms"
      "DirectMessage.ID (ms ! i) = X"
    by (metis in_set_conv_nth)
  then have "carriesID e X k i"
    unfolding carriesID_Some by blast
  then show "\<exists>k i. carriesID e X k i" by blast
qed

lemma ReplyToDirectMessage_none:
  assumes "\<forall>k i. \<not> carriesID e X k i"
  shows "ReplyToDirectMessage order e X sender content idn now =
           (Inl (NotFound ''original message''), e)"
proof -
  from assms have "\<forall>k ms. directMessages e k = Some ms \<longrightarrow> X \<notin> DirectMessage.ID ` set ms"
    using carriesID_exists [of e X] by blast
  then have "scanInboxes e order X None = None"
    by (simp add: scanInboxes_None scanInbox_None)
  then show ?thesis
    by (simp add: ReplyToDirectMessage_def NotFound_def)
qed

lemma ReplyToDirectMessage_selected:
  assumes "keyOrder order (directMessages e)" "carriesID e X k0 i0"
  shows "\<exists>k i reply e'.
            carriesID e X k i
            \<and> ReplyToDirectMessage order e X sender content idn now = (Inr reply, e')
            \<and> reply = DirectMessage (''dm_'' @ fmt_d idn) sender
                        (DirectMessage.From (inbox e k ! i)) content now []
            \<and> DirectMessage.Replies (inbox e' k ! i) =
                DirectMessage.Replies (inbox e k ! i) @ [reply]
            \<and> withoutReplies (inbox e' k ! i) = withoutReplies (inbox e k ! i)
            \<and> (\<forall>u l. (u, l) \<noteq> (k, i) \<longrightarrow> l < length (inbox e u) \<longrightarrow>
                 inbox e' u ! l = inbox e u ! l)
            \<and> (\<forall>u. length (inbox e' u) = length (inbox e u))
            \<and> (\<forall>u. map withoutReplies (inbox e' u) = map withoutReplies (inbox e u))
            \<and> dom (directMessages e') = dom (directMessages e)
            \<and> users e' = users e \<and> subreddits e' = subreddits e \<and> posts e' = posts e
            \<and> postHeap e' = postHeap e \<and> nextPost e' = nextPost e"
proof -
  from assms(2) obtain ms0 where k0: "directMessages e k0 = Some ms0" "i0 < length ms0"
      "DirectMessage.ID (ms0 ! i0) = X"
    unfolding carriesID_Some by blast
  then have "X \<in> DirectMessage.ID ` set ms0"
    by (metis image_eqI nth_mem)
  with k0 have "k0 \<in> set order" "scanInbox ms0 X \<noteq> None"
    using assms(1) by (auto simp: keyOrder_def scanInbox_None)
  with k0 have "scanInboxes e order X None \<noteq> None"
    unfolding scanInboxes_None by auto
  then obtain k i where found: "scanInboxes e order X None = Some (k, i)"
    by auto
  from scanInboxes_Some [OF found] obtain ms where
    ms: "directMessages e k = Some ms" "scanInbox ms X = Some i"
    by auto
  from scanInbox_Some [OF ms(2)] have i: "i < length ms" "DirectMessage.ID (ms ! i) = X"
    by simp_all
  have inbk: "inbox e k = ms"
    using ms(1) by (simp add: inbox_def)
  have car: "carriesID e X k i"
    using i by (simp add: carriesID_def inbk)
  define reply where "reply = DirectMessage (''dm_'' @ fmt_d idn) sender
                        (DirectMessage.From (inbox e k ! i)) content now []"
  define e' where "e' = e\<lparr>directMessages := (directMessages e)(k \<mapsto>
                      ms[i := addReply (ms ! i) reply])\<rparr>"
  have r: "ReplyToDirectMessage order e X sender content idn now = (Inr reply, e')"
    using found ms(1) by (simp add: ReplyToDirectMessage_def Let_def reply_def e'_def inbk)
  have inb: "inbox e' u = (if u = k then ms[i := addReply (ms ! i) reply] else inbox e u)" for u
    by (simp add: inbox_def e'_def)
  have a: "DirectMessage.Replies (inbox e' k ! i) =
      DirectMessage.Replies (inbox e k ! i) @ [reply]"
    "withoutReplies (inbox e' k ! i) = withoutReplies (inbox e k ! i)"
    using i(1) by (simp_all add: inb inbk addReply_simps)
  have b: "\<forall>u l. (u, l) \<noteq> (k, i) \<longrightarrow> l < length (inbox e u) \<longrightarrow>
                 inbox e' u ! l = inbox e u ! l"
    using inbk by (auto simp: inb)
  have c: "\<forall>u. length (inbox e' u) = length (inbox e u)"
    using inbk by (simp add: inb)
  have d: "\<forall>u. map withoutReplies (inbox e' u) = map withoutReplies (inbox e u)"
    using inbk i(1) by (auto simp: inb map_update addReply_simps list_update_same_conv)
  have f: "dom (directMessages e') = dom (directMessages e)"
    using ms(1) by (auto simp: e'_def)
  have g: "users e' = users e \<and> subreddits e' = subreddits e \<and> posts e' = posts e
            \<and> postHeap e' = postHeap e \<and> nextPost e' = nextPost e"
    by (simp add: e'_def)
  from car r a b c d f g reply_def show ?thesis
    by blast
qed

lemma fmt_d_6: "fmt_d 6 = ''6''"
  by code_simp

lemma fmt_d_7: "fmt_d 7 = ''7''"
  by code_simp

lemma dmScenario_fields:
  "directMessages dmScenario = [''bob'' \<mapsto> [DirectMessage ''dm_6'' ''alice'' ''bob'' ''hi'' 7 []]]"
  "users dmScenario = users scenario"
  by (simp_all add: dmScenario_def SendDirectMessage_def scenario_fields fmt_d_6 Let_def)

lemma ReplyToDirectMessage_dmScenario:
  "fst (ReplyToDirectMessage [''bob''] dmScenario ''dm_6'' ''bob'' ''hello'' 7 8) =
     Inr (DirectMessage ''dm_7'' ''bob'' ''alice'' ''hello'' 8 [])"
  "inbox (snd (ReplyToDirectMessage [''bob''] dmScenario ''dm_6'' ''bob'' ''hello'' 7 8)) ''bob'' =
     [DirectMessage ''dm_6'' ''alice'' ''bob'' ''hi'' 7
        [DirectMessage ''dm_7'' ''bob'' ''alice'' ''hello'' 8 []]]"
  "inbox (snd (ReplyToDirectMessage [''bob''] dmScenario ''dm_6'' ''bob'' ''hello'' 7 8)) ''alice'' = []"
  by (simp_all add: ReplyToDirectMessage_def dmScenario_fields fmt_d_7 inbox_def Let_def)

lemma dupScenario_fields:
  "directMessages dupScenario =
     [''bob'' \<mapsto> [DirectMessage ''dm_6'' ''alice'' ''bob'' ''hi'' 7 []],
      ''alice'' \<mapsto> [DirectMessage ''dm_6'' ''bob'' ''alice'' ''yo'' 9 []]]"
  by (simp add: dupScenario_def SendDirectMessage_def dmScenario_fields scenario_fields
      fmt_d_6 Let_def)

lemma reachable_dupScenario: "reachable dupScenario"
  unfolding dupScenario_def dmScenario_def
  by (intro reachable_step [OF _ step_SendDirectMessage] reachable_scenario)

lemma ReplyToDirectMessage_dupScenario:
  "fst (ReplyToDirectMessage [''bob'', ''alice''] dupScenario ''dm_6'' ''bob'' ''hello'' 7 8) =
     Inr (DirectMessage ''dm_7'' ''bob'' ''bob'' ''hello'' 8 [])"
  "inbox (snd (ReplyToDirectMessage [''bob'', ''alice''] dupScenario ''dm_6'' ''bob'' ''hello''
     7 8)) ''bob'' = [DirectMessage ''dm_6'' ''alice'' ''bob'' ''hi'' 7 []]"
  "fst (ReplyToDirectMessage [''alice'', ''bob''] dupScenario ''dm_6'' ''bob'' ''hello'' 7 8) =
     Inr (DirectMessage ''dm_7'' ''bob'' ''alice'' ''hello'' 8 [])"
  by (simp_all add: ReplyToDirectMessage_def dupScenario_fields fmt_d_7 inbox_def Let_def)

text \<open>
  C4. Let \<open>order\<close> be an order in which the inboxes may be visited. If no message of any
  inbox has the identifier \<open>X\<close>, \<open>ReplyToDirectMessage\<close> fails with \<open>NotFound\<close> and
  leaves the engine unchanged. If a message has it and is the only message of any inbox
  that has it, the call returns a reply written by \<open>sender\<close> whose recipient is that
  message's sender; afterwards that message has the reply as the last of its replies and
  is otherwise the same, every other message of every inbox is the same, no inbox has
  gained or lost a message (the reply is in no top-level inbox), and nothing else of the
  engine has changed. If several messages have the identifier, all of this holds of one
  of them.
\<close>

theorem ReplyToDirectMessage_threading:
  assumes "keyOrder order (directMessages e)"
  shows "((\<forall>k i. \<not> carriesID e X k i) \<longrightarrow>
           ReplyToDirectMessage order e X sender content idn now =
             (Inl (NotFound ''original message''), e))
    \<and> (\<forall>k i. onlyCarrier e X k i \<longrightarrow>
         (\<exists>reply e'.
            ReplyToDirectMessage order e X sender content idn now = (Inr reply, e')
            \<and> reply = DirectMessage (''dm_'' @ fmt_d idn) sender
                        (DirectMessage.From (inbox e k ! i)) content now []
            \<and> DirectMessage.Replies (inbox e' k ! i) =
                DirectMessage.Replies (inbox e k ! i) @ [reply]
            \<and> withoutReplies (inbox e' k ! i) = withoutReplies (inbox e k ! i)
            \<and> (\<forall>u l. (u, l) \<noteq> (k, i) \<longrightarrow> l < length (inbox e u) \<longrightarrow>
                 inbox e' u ! l = inbox e u ! l)
            \<and> (\<forall>u. length (inbox e' u) = length (inbox e u))
            \<and> (\<forall>u. map withoutReplies (inbox e' u) = map withoutReplies (inbox e u))
            \<and> dom (directMessages e') = dom (directMessages e)
            \<and> users e' = users e \<and> subreddits e' = subreddits e \<and> posts e' = posts e
            \<and> postHeap e' = postHeap e \<and> nextPost e' = nextPost e))
    \<and> ((\<exists>k i. carriesID e X k i) \<longrightarrow>
         (\<exists>k i reply e'.
            carriesID e X k i
            \<and> ReplyToDirectMessage order e X sender content idn now = (Inr reply, e')
            \<and> reply = DirectMessage (''dm_'' @ fmt_d idn) sender
                        (DirectMessage.From (inbox e k ! i)) content now []
            \<and> DirectMessage.Replies (inbox e' k ! i) =
                DirectMessage.Replies (inbox e k ! i) @ [reply]
            \<and> withoutReplies (inbox e' k ! i) = withoutReplies (inbox e k ! i)
            \<and> (\<forall>u l. (u, l) \<noteq> (k, i) \<longrightarrow> l < length (inbox e u) \<longrightarrow>
                 inbox e' u ! l = inbox e u ! l)
            \<and> (\<forall>u. length (inbox e' u) = length (inbox e u))
            \<and> (\<forall>u. map withoutReplies (inbox e' u) = map withoutReplies (inbox e u))
            \<and> dom (directMessages e') = dom (directMessages e)
            \<and> users e' = users e \<and> subreddits e' = subreddits e \<and> posts e' = posts e
            \<and> postHeap e' = postHeap e \<and> nextPost e' = nextPost e))"
proof (intro conjI allI impI)
  assume "\<forall>k i. \<not> carriesID e X k i"
  then show "ReplyToDirectMessage order e X sender content idn now =
      (Inl (NotFound ''original message''), e)"
    by (rule ReplyToDirectMessage_none)
next
  fix k i
  assume only: "onlyCarrier e X k i"
  then have car: "carriesID e X k i"
    and uniq: "\<And>k' j. carriesID e X k' j \<Longrightarrow> k' = k \<and> j = i"
    by (simp_all add: onlyCarrier_def)
  from ReplyToDirectMessage_selected [OF assms car, of sender content idn now]
  obtain k1 i1 reply e' where
    c1: "carriesID e X k1 i1"
    and rest: "ReplyToDirectMessage order e X sender content idn now = (Inr reply, e')
            \<and> reply = DirectMessage (''dm_'' @ fmt_d idn) sender
                        (DirectMessage.From (inbox e k1 ! i1)) content now []
            \<and> DirectMessage.Replies (inbox e' k1 ! i1) =
                DirectMessage.Replies (inbox e k1 ! i1) @ [reply]
            \<and> withoutReplies (inbox e' k1 ! i1) = withoutReplies (inbox e k1 ! i1)
            \<and> (\<forall>u l. (u, l) \<noteq> (k1, i1) \<longrightarrow> l < length (inbox e u) \<longrightarrow>
                 inbox e' u ! l = inbox e u ! l)
            \<and> (\<forall>u. length (inbox e' u) = length (inbox e u))
            \<and> (\<forall>u. map withoutReplies (inbox e' u) = map withoutReplies (inbox e u))
            \<and> dom (directMessages e') = dom (directMessages e)
            \<and> users e' = users e \<and> subreddits e' = subreddits e \<and> posts e' = posts e
            \<and> postHeap e' = postHeap e \<and> nextPost e' = nextPost e"
    by blast
  from uniq [OF c1] have eq: "k1 = k" "i1 = i" by simp_all
  from rest [unfolded eq]
  show "\<exists>reply e'.
            ReplyToDirectMessage order e X sender content idn now = (Inr reply, e')
            \<and> reply = DirectMessage (''dm_'' @ fmt_d idn) sender
                        (DirectMessage.From (inbox e k ! i)) content now []
            \<and> DirectMessage.Replies (inbox e' k ! i) =
                DirectMessage.Replies (inbox e k ! i) @ [reply]
            \<and> withoutReplies (inbox e' k ! i) = withoutReplies (inbox e k ! i)
            \<and> (\<forall>u l. (u, l) \<noteq> (k, i) \<longrightarrow> l < length (inbox e u) \<longrightarrow>
                 inbox e' u ! l = inbox e u ! l)
            \<and> (\<forall>u. length (inbox e' u) = length (inbox e u))
            \<and> (\<forall>u. map withoutReplies (inbox e' u) = map withoutReplies (inbox e u))
            \<and> dom (directMessages e') = dom (directMessages e)
            \<and> users e' = users e \<and> subreddits e' = subreddits e \<and> posts e' = posts e
            \<and> postHeap e' = postHeap e \<and> nextPost e' = nextPost e"
    by (intro exI)
next
  assume "\<exists>k i. carriesID e X k i"
  then obtain k0 i0 where "carriesID e X k0 i0" by blast
  from ReplyToDirectMessage_selected [OF assms this, of sender content idn now]
  show "\<exists>k i reply e'.
            carriesID e X k i
            \<and> ReplyToDirectMessage order e X sender content idn now = (Inr reply, e')
            \<and> reply = DirectMessage (''dm_'' @ fmt_d idn) sender
                        (DirectMessage.From (inbox e k ! i)) content now []
            \<and> DirectMessage.Replies (inbox e' k ! i) =
                DirectMessage.Replies (inbox e k ! i) @ [reply]
            \<and> withoutReplies (inbox e' k ! i) = withoutReplies (inbox e k ! i)
            \<and> (\<forall>u l. (u, l) \<noteq> (k, i) \<longrightarrow> l < length (inbox e u) \<longrightarrow>
                 inbox e' u ! l = inbox e u ! l)
            \<and> (\<forall>u. length (inbox e' u) = length (inbox e u))
            \<and> (\<forall>u. map withoutReplies (inbox e' u) = map withoutReplies (inbox e u))
            \<and> dom (directMessages e') = dom (directMessages e)
            \<and> users e' = users e \<and> subreddits e' = subreddits e \<and> posts e' = posts e
            \<and> postHeap e' = postHeap e \<and> nextPost e' = nextPost e" .
qed

theorem ReplyToDirectMessage_threading_witness:
  "keyOrder [''bob''] (directMessages dmScenario)
   \<and> onlyCarrier dmScenario ''dm_6'' ''bob'' 0
   \<and> DirectMessage.From (inbox dmScenario ''bob'' ! 0) = ''alice''
   \<and> fst (ReplyToDirectMessage [''bob''] dmScenario ''dm_6'' ''bob'' ''hello'' 7 8) =
       Inr (DirectMessage ''dm_7'' ''bob'' ''alice'' ''hello'' 8 [])
   \<and> DirectMessage.Replies
        (inbox (snd (ReplyToDirectMessage [''bob''] dmScenario ''dm_6'' ''bob'' ''hello'' 7 8))
           ''bob'' ! 0) = [DirectMessage ''dm_7'' ''bob'' ''alice'' ''hello'' 8 []]
   \<and> length (inbox (snd (ReplyToDirectMessage [''bob''] dmScenario ''dm_6'' ''bob'' ''hello'' 7 8))
        ''bob'') = 1
   \<and> length (inbox (snd (ReplyToDirectMessage [''bob''] dmScenario ''dm_6'' ''bob'' ''hello'' 7 8))
        ''alice'') = 0
   \<and> ReplyToDirectMessage [''bob''] dmScenario ''dm_9'' ''bob'' ''hello'' 7 8 =
       (Inl (Errorf ''original message not found''), dmScenario)"
proof -
  let ?r = "ReplyToDirectMessage [''bob''] dmScenario ''dm_6'' ''bob'' ''hello'' 7 8"
  have ko: "keyOrder [''bob''] (directMessages dmScenario)"
    by (simp add: keyOrder_def dmScenario_fields)
  have inb: "inbox dmScenario u =
      (if u = ''bob'' then [DirectMessage ''dm_6'' ''alice'' ''bob'' ''hi'' 7 []] else [])" for u
    by (simp add: inbox_def dmScenario_fields)
  have only: "onlyCarrier dmScenario ''dm_6'' ''bob'' 0"
    by (auto simp: onlyCarrier_def carriesID_def inb split: if_splits)
  have absent: "\<forall>k i. \<not> carriesID dmScenario ''dm_9'' k i"
    by (auto simp: carriesID_def inb split: if_splits)
  note t = ReplyToDirectMessage_threading [OF ko, of _ "''bob''" "''hello''" 7 8]
  from t [of "''dm_6''", THEN conjunct2, THEN conjunct1, THEN spec, THEN spec, THEN mp, OF only]
  obtain reply e' where
    r: "?r = (Inr reply, e')"
    and rp: "reply = DirectMessage (''dm_'' @ fmt_d 7) ''bob''
        (DirectMessage.From (inbox dmScenario ''bob'' ! 0)) ''hello'' 8 []"
    and rs: "DirectMessage.Replies (inbox e' ''bob'' ! 0) =
        DirectMessage.Replies (inbox dmScenario ''bob'' ! 0) @ [reply]"
    and l: "\<forall>u. length (inbox e' u) = length (inbox dmScenario u)"
    by blast
  have rp': "reply = DirectMessage ''dm_7'' ''bob'' ''alice'' ''hello'' 8 []"
    unfolding rp by (simp add: inb fmt_d_7)
  have e': "snd ?r = e'" and f: "fst ?r = Inr reply"
    using r by simp_all
  have nf: "ReplyToDirectMessage [''bob''] dmScenario ''dm_9'' ''bob'' ''hello'' 7 8 =
       (Inl (NotFound ''original message''), dmScenario)"
    using t [of "''dm_9''", THEN conjunct1] absent by (rule mp)
  show ?thesis
    unfolding e' f nf
    using ko only rs l by (simp add: rp' inb NotFound_def)
qed

theorem ReplyToDirectMessage_duplicate_id:
  "reachable dupScenario
   \<and> keyOrder [''bob'', ''alice''] (directMessages dupScenario)
   \<and> inbox dupScenario ''bob'' = [DirectMessage ''dm_6'' ''alice'' ''bob'' ''hi'' 7 []]
   \<and> fst (ReplyToDirectMessage [''bob'', ''alice''] dupScenario ''dm_6'' ''bob'' ''hello'' 7 8) =
       Inr (DirectMessage ''dm_7'' ''bob'' ''bob'' ''hello'' 8 [])
   \<and> inbox (snd (ReplyToDirectMessage [''bob'', ''alice''] dupScenario ''dm_6'' ''bob''
        ''hello'' 7 8)) ''bob'' = [DirectMessage ''dm_6'' ''alice'' ''bob'' ''hi'' 7 []]"
proof -
  have ko: "keyOrder [''bob'', ''alice''] (directMessages dupScenario)"
    by (auto simp: keyOrder_def dupScenario_fields)
  have inb: "inbox dupScenario ''bob'' = [DirectMessage ''dm_6'' ''alice'' ''bob'' ''hi'' 7 []]"
    by (simp add: inbox_def dupScenario_fields)
  from reachable_dupScenario ko inb ReplyToDirectMessage_dupScenario(1,2)
  show ?thesis by simp
qed

subsection \<open>The comment tree\<close>

lemma commentIDs_append: "commentIDs (xs @ ys) = commentIDs xs @ commentIDs ys"
  by (induction xs rule: commentIDs.induct) simp_all

lemma findComment_nonempty: "findComment cs X \<noteq> Some []"
  by (induction cs X rule: findComment.induct) (auto split: option.splits list.splits)

lemma findComment_None: "findComment cs X = None \<longleftrightarrow> X \<notin> set (commentIDs cs)"
proof (induction cs X rule: findComment.induct)
  case (1 commentID)
  show ?case by simp
next
  case (2 i ct au pa t v ch cs commentID)
  then show ?case
    using findComment_nonempty [of cs commentID]
    by (auto split: option.splits list.splits)
qed

lemma findComment_Some:
  "findComment cs X = Some p \<Longrightarrow>
   (\<exists>c. nodeAt cs p = Some c \<and> Comment.ID c = X) \<and> X \<notin> set (idsBefore cs p)"
proof (induction cs X arbitrary: p rule: findComment.induct)
  case (1 commentID)
  then show ?case by simp
next
  case (2 i ct au pa t v ch cs commentID)
  show ?case
  proof (cases "i = commentID")
    case True
    with "2.prems" show ?thesis by auto
  next
    case False
    show ?thesis
    proof (cases "findComment ch commentID")
      case (Some p')
      with False "2.prems" have p: "p = 0 # p'" by simp
      from findComment_nonempty [of ch commentID] Some obtain k r where p': "p' = k # r"
        by (cases p') auto
      from "2.IH"(1) [OF False Some] False show ?thesis
        unfolding p p' by simp
    next
      case None
      with False "2.prems" obtain k r where
        f: "findComment cs commentID = Some (k # r)" and p: "p = Suc k # r"
        by (auto split: option.splits list.splits)
      have nch: "commentID \<notin> set (commentIDs ch)"
        using None by (simp add: findComment_None)
      from "2.IH"(2) [OF False None f] False nch show ?thesis
        unfolding p by (cases r) (auto split: if_splits)
    qed
  qed
qed

lemma setChildren_simps:
  "ownFields (setChildren c ch') = ownFields c"
  "Comment.Children (setChildren c ch') = ch'"
  "Comment.ID (setChildren c ch') = Comment.ID c"
  by (cases c; simp)+

lemma nodeAt_Nil: "nodeAt [] q = None"
  by (cases "([] :: Comment list, q)" rule: nodeAt.cases) simp_all

lemma nodeAt_snoc_leaf:
  assumes "Comment.Children new = []"
  shows "nodeAt (ch @ [new]) q = (if q = [length ch] then Some new else nodeAt ch q)"
proof (cases "(ch, q)" rule: nodeAt.cases)
  case (1 cs)
  then show ?thesis by simp
next
  case (2 cs k)
  then show ?thesis by (auto simp: nth_append)
next
  case (3 cs k v va)
  then show ?thesis using assms by (auto simp: nth_append nodeAt_Nil)
qed

lemma nodeAt_appendChild:
  assumes "nodeAt cs p = Some c" "Comment.Children new = []"
  shows "nodeAt (appendChild cs p new) p = Some (setChildren c (Comment.Children c @ [new]))"
    and "map_option ownFields (nodeAt (appendChild cs p new) q) =
      (if q = p @ [length (Comment.Children c)] then Some (ownFields new)
       else map_option ownFields (nodeAt cs q))"
  using assms
proof (induction cs p new arbitrary: q c rule: appendChild.induct)
  case (1 cs new)
  { case 1 then show ?case by simp }
  { case 2 then show ?case by simp }
next
  case (2 cs k new)
  { case 1 then show ?case by (simp split: if_splits) }
  { case 2
    then have k: "k < length cs" "c = cs ! k" by (simp_all split: if_splits)
    show ?case
    proof (cases "(cs, q)" rule: nodeAt.cases)
      case (1 cs')
      then show ?thesis by simp
    next
      case (2 cs' k')
      then show ?thesis using k by (simp add: nth_list_update setChildren_simps)
    next
      case (3 cs' k' v va)
      then show ?thesis using k "2.prems"(2)
        by (auto simp: nth_list_update setChildren_simps nodeAt_snoc_leaf)
    qed }
next
  case (3 cs k v va new)
  { case 1
    then have k: "k < length cs" "nodeAt (Comment.Children (cs ! k)) (v # va) = Some c"
      by (simp_all split: if_splits)
    from "3.IH"(1) [OF k(1) k(2) "1.prems"(2)] k(1) show ?case
      by (simp add: setChildren_simps) }
  { case 2
    then have k: "k < length cs" "nodeAt (Comment.Children (cs ! k)) (v # va) = Some c"
      by (simp_all split: if_splits)
    note ih = "3.IH"(2) [OF k(1) k(2) "2.prems"(2)]
    show ?case
    proof (cases "(cs, q)" rule: nodeAt.cases)
      case (1 cs')
      then show ?thesis by simp
    next
      case (2 cs' k')
      then show ?thesis using k by (simp add: nth_list_update setChildren_simps)
    next
      case (3 cs' k' w wa)
      then show ?thesis using k ih [of "w # wa"]
        by (auto simp: nth_list_update setChildren_simps)
    qed }
qed

text \<open>
  C2. \<open>AddComment\<close> fails with \<open>NotFound\<close> for the post when the post identifier is
  unknown. For a known post and an empty parent identifier it appends the new comment to
  the post's top-level comments. For a non-empty parent identifier that no node of the
  post's tree carries it fails with \<open>NotFound\<close> for the parent comment and changes
  nothing. For a non-empty parent identifier carried by some node, at any depth, it
  succeeds: there is a node with that identifier, the first one a depth-first walk of the
  tree meets, that has the new comment as its last child afterwards, and the tree
  afterwards is the tree before with that one leaf added: every path leads to a node with
  the same own fields as before, except that the path of the new leaf now leads to the
  new comment. Nothing but the post's comments changes.
\<close>

theorem AddComment_tree:
  fixes e :: RedditEngine
  defines "comment \<equiv> \<lambda>content author parentID idn now.
     Comment (''comment_'' @ fmt_d idn) content author parentID now 0 []"
  shows "(posts e P = None \<longrightarrow>
       AddComment e content author P parentID idn now = (Inl (NotFound ''post''), e))
   \<and> (\<forall>a. posts e P = Some a \<longrightarrow>
        (parentID = [] \<longrightarrow>
           AddComment e content author P parentID idn now =
             (Inr (comment content author parentID idn now),
              e\<lparr>postHeap := (postHeap e)(a := (postHeap e a)
                 \<lparr>Post.Comments := Post.Comments (postHeap e a)
                    @ [comment content author parentID idn now]\<rparr>)\<rparr>))
        \<and> (parentID \<noteq> [] \<and> parentID \<notin> set (commentIDs (Post.Comments (postHeap e a))) \<longrightarrow>
           AddComment e content author P parentID idn now =
             (Inl (NotFound ''parent comment''), e))
        \<and> (parentID \<noteq> [] \<and> parentID \<in> set (commentIDs (Post.Comments (postHeap e a))) \<longrightarrow>
           (\<exists>p c cs'.
              nodeAt (Post.Comments (postHeap e a)) p = Some c
              \<and> Comment.ID c = parentID
              \<and> parentID \<notin> set (idsBefore (Post.Comments (postHeap e a)) p)
              \<and> AddComment e content author P parentID idn now =
                  (Inr (comment content author parentID idn now),
                   e\<lparr>postHeap := (postHeap e)(a := (postHeap e a)\<lparr>Post.Comments := cs'\<rparr>)\<rparr>)
              \<and> nodeAt cs' p =
                  Some (setChildren c
                    (Comment.Children c @ [comment content author parentID idn now]))
              \<and> (\<forall>q. map_option ownFields (nodeAt cs' q) =
                    (if q = p @ [length (Comment.Children c)]
                     then Some (ownFields (comment content author parentID idn now))
                     else map_option ownFields (nodeAt (Post.Comments (postHeap e a)) q))))))"
proof (intro conjI allI impI)
  assume "posts e P = None"
  then show "AddComment e content author P parentID idn now = (Inl (NotFound ''post''), e)"
    by (simp add: AddComment_def NotFound_def)
next
  fix a assume "posts e P = Some a" "parentID = []"
  then show "AddComment e content author P parentID idn now =
             (Inr (comment content author parentID idn now),
              e\<lparr>postHeap := (postHeap e)(a := (postHeap e a)
                 \<lparr>Post.Comments := Post.Comments (postHeap e a)
                    @ [comment content author parentID idn now]\<rparr>)\<rparr>)"
    by (simp add: AddComment_def comment_def Let_def)
next
  fix a
  assume "posts e P = Some a"
    "parentID \<noteq> [] \<and> parentID \<notin> set (commentIDs (Post.Comments (postHeap e a)))"
  then show "AddComment e content author P parentID idn now =
      (Inl (NotFound ''parent comment''), e)"
    by (simp add: AddComment_def NotFound_def Let_def findComment_None [symmetric])
next
  fix a
  let ?cs = "Post.Comments (postHeap e a)"
  let ?new = "comment content author parentID idn now"
  assume a: "posts e P = Some a"
    and h: "parentID \<noteq> [] \<and> parentID \<in> set (commentIDs ?cs)"
  then have "findComment ?cs parentID \<noteq> None"
    by (simp add: findComment_None)
  then obtain p where p: "findComment ?cs parentID = Some p" by auto
  from findComment_Some [OF p] obtain c where
    c: "nodeAt ?cs p = Some c" "Comment.ID c = parentID" "parentID \<notin> set (idsBefore ?cs p)"
    by blast
  have leaf: "Comment.Children ?new = []" by (simp add: comment_def)
  have r: "AddComment e content author P parentID idn now =
      (Inr ?new, e\<lparr>postHeap := (postHeap e)(a := (postHeap e a)
         \<lparr>Post.Comments := appendChild ?cs p ?new\<rparr>)\<rparr>)"
    using a h p by (simp add: AddComment_def comment_def Let_def)
  from c r nodeAt_appendChild [OF c(1) leaf]
  show "\<exists>p c cs'.
              nodeAt ?cs p = Some c
              \<and> Comment.ID c = parentID
              \<and> parentID \<notin> set (idsBefore ?cs p)
              \<and> AddComment e content author P parentID idn now =
                  (Inr ?new,
                   e\<lparr>postHeap := (postHeap e)(a := (postHeap e a)\<lparr>Post.Comments := cs'\<rparr>)\<rparr>)
              \<and> nodeAt cs' p = Some (setChildren c (Comment.Children c @ [?new]))
              \<and> (\<forall>q. map_option ownFields (nodeAt cs' q) =
                    (if q = p @ [length (Comment.Children c)]
                     then Some (ownFields ?new)
                     else map_option ownFields (nodeAt ?cs q)))"
    by blast
qed

lemma fmt_d_20: "fmt_d 20 = ''20''"
  by code_simp

lemma fmt_d_22: "fmt_d 22 = ''22''"
  by code_simp

lemma fmt_d_24: "fmt_d 24 = ''24''"
  by code_simp

lemma commentScenario_fields:
  "posts commentScenario = posts scenario"
  "Post.Comments (postHeap commentScenario 0) =
     [Comment ''comment_20'' ''first'' ''bob'' [] 21 0
        [Comment ''comment_22'' ''second'' ''alice'' ''comment_20'' 23 0 []]]"
  by (simp_all add: commentScenario_def AddComment_def scenario_fields fmt_d_20 fmt_d_22 Let_def)

lemma AddComment_commentScenario:
  "Post.Comments (postHeap
     (snd (AddComment commentScenario ''third'' ''bob'' ''post_4'' ''comment_22'' 24 25)) 0) =
     [Comment ''comment_20'' ''first'' ''bob'' [] 21 0
        [Comment ''comment_22'' ''second'' ''alice'' ''comment_20'' 23 0
           [Comment ''comment_24'' ''third'' ''bob'' ''comment_22'' 25 0 []]]]"
  by (simp add: AddComment_def commentScenario_fields scenario_fields fmt_d_24 Let_def)

theorem AddComment_tree_witness:
  "posts commentScenario ''post_4'' = Some 0
   \<and> ''comment_22'' \<in> set (commentIDs (Post.Comments (postHeap commentScenario 0)))
   \<and> fst (AddComment commentScenario ''third'' ''bob'' ''post_4'' ''comment_22'' 24 25) =
       Inr (Comment ''comment_24'' ''third'' ''bob'' ''comment_22'' 25 0 [])
   \<and> Post.Comments (postHeap
       (snd (AddComment commentScenario ''third'' ''bob'' ''post_4'' ''comment_22'' 24 25)) 0) =
       [Comment ''comment_20'' ''first'' ''bob'' [] 21 0
          [Comment ''comment_22'' ''second'' ''alice'' ''comment_20'' 23 0
             [Comment ''comment_24'' ''third'' ''bob'' ''comment_22'' 25 0 []]]]
   \<and> ''comment_9'' \<notin> set (commentIDs (Post.Comments (postHeap commentScenario 0)))
   \<and> AddComment commentScenario ''third'' ''bob'' ''post_4'' ''comment_9'' 24 25 =
       (Inl (Errorf ''parent comment not found''), commentScenario)
   \<and> posts commentScenario ''post_5'' = None
   \<and> AddComment commentScenario ''third'' ''bob'' ''post_5'' [] 24 25 =
       (Inl (Errorf ''post not found''), commentScenario)"
proof -
  have p: "posts commentScenario ''post_4'' = Some 0" "posts commentScenario ''post_5'' = None"
    by (simp_all add: commentScenario_fields scenario_fields)
  have i: "''comment_22'' \<in> set (commentIDs (Post.Comments (postHeap commentScenario 0)))"
    "''comment_9'' \<notin> set (commentIDs (Post.Comments (postHeap commentScenario 0)))"
    by (simp_all add: commentScenario_fields)
  from AddComment_tree [of commentScenario "''post_4''" "''third''" "''bob''" "''comment_22''" 24 25]
    p(1) i(1)
  obtain cs' where "AddComment commentScenario ''third'' ''bob'' ''post_4'' ''comment_22'' 24 25 =
      (Inr (Comment (''comment_'' @ fmt_d 24) ''third'' ''bob'' ''comment_22'' 25 0 []),
       commentScenario\<lparr>postHeap := (postHeap commentScenario)(0 :=
          (postHeap commentScenario 0)\<lparr>Post.Comments := cs'\<rparr>)\<rparr>)"
    by auto
  then have r: "fst (AddComment commentScenario ''third'' ''bob'' ''post_4'' ''comment_22'' 24 25) =
       Inr (Comment ''comment_24'' ''third'' ''bob'' ''comment_22'' 25 0 [])"
    by (simp add: fmt_d_24)
  from AddComment_tree [of commentScenario "''post_4''" "''third''" "''bob''" "''comment_9''" 24 25]
    p(1) i(2)
  have n1: "AddComment commentScenario ''third'' ''bob'' ''post_4'' ''comment_9'' 24 25 =
       (Inl (NotFound ''parent comment''), commentScenario)"
    by auto
  from AddComment_tree [of commentScenario "''post_5''" "''third''" "''bob''" "[]" 24 25] p(2)
  have n2: "AddComment commentScenario ''third'' ''bob'' ''post_5'' [] 24 25 =
       (Inl (NotFound ''post''), commentScenario)"
    by blast
  from p i r n1 n2 AddComment_commentScenario show ?thesis
    by (simp add: NotFound_def)
qed

subsection \<open>Statistics\<close>

lemma countComments_commentIDs: "countComments cs = of_nat (length (commentIDs cs))"
  by (induction cs rule: countComments.induct) simp_all

lemma postTotals_sums:
  "postTotals e ks (tc, tu, td) =
     (tc + (\<Sum>k\<leftarrow>filter (\<lambda>k. posts e k \<noteq> None) ks. countComments (Post.Comments (postAt e k))),
      tu + (\<Sum>k\<leftarrow>filter (\<lambda>k. posts e k \<noteq> None) ks.
              if 0 < sint (Post.Votes (postAt e k)) then Post.Votes (postAt e k) else 0),
      td + (\<Sum>k\<leftarrow>filter (\<lambda>k. posts e k \<noteq> None) ks.
              if 0 < sint (Post.Votes (postAt e k)) then 0 else - Post.Votes (postAt e k)))"
  by (induction ks arbitrary: tc tu td)
    (auto simp: postAt_def Let_def add.assoc split: option.splits)

lemma rangeUsers_map:
  "rangeUsers e ks acc =
     acc @ map (\<lambda>k. (k, User.Karma (the (users e k)))) (filter (\<lambda>k. users e k \<noteq> None) ks)"
  by (induction ks arbitrary: acc) (auto split: option.splits)

lemma dmTotal_sum:
  "dmTotal e ks n =
     n + (\<Sum>k\<leftarrow>filter (\<lambda>k. directMessages e k \<noteq> None) ks.
                of_nat (length (the (directMessages e k))))"
  by (induction ks arbitrary: n) (auto simp: add.assoc split: option.splits)

lemma top5_take:
  "top5 xs i acc = acc @ map toUserKarma (take (5 - i) (drop i xs))"
proof (induction xs i acc rule: top5.induct)
  case (1 xs i acc)
  show ?case
  proof (cases "i < length xs \<and> i < 5")
    case True
    then have "take (5 - i) (drop i xs) = xs ! i # take (5 - (i + 1)) (drop (i + 1) xs)"
      by (simp add: Cons_nth_drop_Suc [symmetric] take_Cons')
    with True "1.IH" show ?thesis
      by (subst top5.simps) simp
  next
    case False
    then show ?thesis
      by (subst top5.simps) auto
  qed
qed

lemma keyOrder_filter: "keyOrder ks m \<Longrightarrow> filter (\<lambda>k. m k \<noteq> None) ks = ks"
  by (auto simp: keyOrder_def filter_id_conv)

lemma keyOrder_sum:
  fixes f :: "'k \<Rightarrow> go_int"
  shows "keyOrder ks m \<Longrightarrow> (\<Sum>k\<leftarrow>ks. f k) = (\<Sum>k \<in> dom m. f k)"
  by (auto simp: keyOrder_def sum_list_distinct_conv_sum_set)

lemma keyOrder_mset: "keyOrder ks m \<Longrightarrow> mset ks = mset_set (dom m)"
  by (metis keyOrder_def mset_set_set)

lemma insertLess_mset: "mset (insertLess lt x xs) = add_mset x (mset xs)"
  by (induction xs) auto

lemma insertLess_set: "set (insertLess lt x xs) = insert x (set xs)"
  by (induction xs) auto

lemma insertLess_sorted:
  fixes key :: "'a \<Rightarrow> int"
  assumes "sorted_wrt (\<lambda>a b. key b \<le> key a) xs"
  shows "sorted_wrt (\<lambda>a b. key b \<le> key a) (insertLess (\<lambda>a b. key a > key b) x xs)"
  using assms by (induction xs) (auto simp: insertLess_set)

lemma insertionSort_contract:
  fixes key :: "'a \<Rightarrow> int"
  shows "sortContract insertionSort (\<lambda>a b. key a > key b)"
proof -
  have "mset (insertionSort (\<lambda>a b. key a > key b) xs) = mset xs
      \<and> sorted_wrt (\<lambda>a b. key b \<le> key a) (insertionSort (\<lambda>a b. key a > key b) xs)" for xs
    by (induction xs) (simp_all add: insertionSort_def insertLess_mset insertLess_sorted)
  then show ?thesis
    by (simp add: sortContract_def not_less)
qed

lemma keyOrder_finite: "keyOrder ks m \<Longrightarrow> finite (dom m)"
  by (metis keyOrder_def List.finite_set)

lemma postTotals_keyOrder:
  assumes "keyOrder ks (posts e)"
  shows "postTotals e ks (0, 0, 0) =
     ((\<Sum>k \<in> dom (posts e). of_nat (length (commentIDs (Post.Comments (postAt e k))))),
      (\<Sum>k \<in> {k \<in> dom (posts e). 0 < sint (Post.Votes (postAt e k))}. Post.Votes (postAt e k)),
      (\<Sum>k \<in> {k \<in> dom (posts e). \<not> 0 < sint (Post.Votes (postAt e k))}.
          - Post.Votes (postAt e k)))"
proof -
  have f: "finite (dom (posts e))" using assms by (rule keyOrder_finite)
  have d: "(\<Sum>k \<in> {k \<in> dom (posts e). \<not> 0 < sint (Post.Votes (postAt e k))}.
          - Post.Votes (postAt e k)) =
      (\<Sum>k \<in> dom (posts e). if 0 < sint (Post.Votes (postAt e k)) then 0
          else - Post.Votes (postAt e k))"
    unfolding sum.inter_filter [OF f]
    by (rule sum.cong) simp_all
  show ?thesis
    unfolding postTotals_sums keyOrder_filter [OF assms] keyOrder_sum [OF assms]
      countComments_commentIDs d
    by (simp add: sum.inter_filter [OF f])
qed

lemma dmTotal_keyOrder:
  assumes "keyOrder ks (directMessages e)"
  shows "dmTotal e ks 0 = (\<Sum>k \<in> dom (directMessages e). of_nat (length (inbox e k)))"
proof -
  have "(\<Sum>k \<in> dom (directMessages e). of_nat (length (the (directMessages e k))) :: go_int) =
      (\<Sum>k \<in> dom (directMessages e). of_nat (length (inbox e k)))"
    by (rule sum.cong) (auto simp: inbox_def)
  then show ?thesis
    unfolding dmTotal_sum keyOrder_filter [OF assms] keyOrder_sum [OF assms] by simp
qed

lemma rangeUsers_keyOrder:
  assumes "keyOrder ks (users e)"
  shows "mset (map toUserKarma (rangeUsers e ks [])) =
     image_mset (\<lambda>k. \<lparr>UserKarma.Username = k, UserKarma.Karma = User.Karma (the (users e k))\<rparr>)
       (mset_set (dom (users e)))"
  unfolding rangeUsers_map keyOrder_filter [OF assms]
  by (simp add: toUserKarma_def o_def keyOrder_mset [OF assms, symmetric])

lemma ranked_actor:
  assumes "keyOrder ks (users e)"
    and "sortContract sortA (\<lambda>a b. sint (UserKarma.Karma a) > sint (UserKarma.Karma b))"
  shows "rankedByKarma e
     (sortA (\<lambda>a b. sint (UserKarma.Karma a) > sint (UserKarma.Karma b))
        (map toUserKarma (rangeUsers e ks [])))"
  using assms(2) rangeUsers_keyOrder [OF assms(1)]
  by (simp add: rankedByKarma_def sortContract_def not_less)

lemma ranked_http:
  assumes "keyOrder ks (users e)"
    and "sortContract sortH (\<lambda>a b. sint (snd a) > sint (snd (b :: string \<times> go_int)))"
  shows "rankedByKarma e
     (map toUserKarma (sortH (\<lambda>a b. sint (snd a) > sint (snd b)) (rangeUsers e ks [])))"
proof -
  let ?s = "sortH (\<lambda>a b. sint (snd a) > sint (snd b)) (rangeUsers e ks [])"
  have m: "mset ?s = mset (rangeUsers e ks [])"
    and s: "sorted_wrt (\<lambda>a b. sint (snd b) \<le> sint (snd a)) ?s"
    using assms(2) by (simp_all add: sortContract_def not_less)
  have "mset (map toUserKarma ?s) = mset (map toUserKarma (rangeUsers e ks []))"
    using m by (metis mset_map)
  moreover have "sorted_wrt (\<lambda>a b. sint (UserKarma.Karma b) \<le> sint (UserKarma.Karma a))
      (map toUserKarma ?s)"
    using s by (simp add: sorted_wrt_map toUserKarma_def)
  ultimately show ?thesis
    using rangeUsers_keyOrder [OF assms(1)] by (simp add: rankedByKarma_def)
qed

text \<open>
  C7. Let the three maps be visited in any order, and let \<open>sort.Slice\<close> keep its
  promise for the comparison by karma. Then both callers report: as total comments the
  sum over all posts of the number of nodes of the post's comment tree, at every depth;
  as total upvotes the sum of the vote counters of the posts whose counter is positive;
  as total downvotes the sum of the negated vote counters of all other posts (net
  counts); as direct messages the sum of the lengths of all top-level inboxes; and as top
  users the first 10 (actor) or the first 5 (HTTP server) entries of a ranking of all
  users by karma, highest first. The sums are Go \<open>int\<close>s.
\<close>

theorem stats_computation:
  fixes e :: RedditEngine
  assumes "keyOrder postOrder (posts e)"
    and "keyOrder userOrder (users e)"
    and "keyOrder dmOrder (directMessages e)"
    and "sortContract sortA (\<lambda>a b. sint (UserKarma.Karma a) > sint (UserKarma.Karma b))"
    and "sortContract sortH (\<lambda>a b. sint (snd a) > sint (snd (b :: string \<times> go_int)))"
  defines "actor \<equiv> Receive_GetStats sortA postOrder userOrder dmOrder e"
    and "http \<equiv> handleGetStats sortH postOrder userOrder dmOrder e"
    and "comments \<equiv> \<Sum>k \<in> dom (posts e). of_nat (length (commentIDs (Post.Comments (postAt e k))))"
    and "ups \<equiv> \<Sum>k \<in> {k \<in> dom (posts e). 0 < sint (Post.Votes (postAt e k))}.
                  Post.Votes (postAt e k)"
    and "downs \<equiv> \<Sum>k \<in> {k \<in> dom (posts e). \<not> 0 < sint (Post.Votes (postAt e k))}.
                  - Post.Votes (postAt e k)"
    and "dms \<equiv> \<Sum>k \<in> dom (directMessages e). of_nat (length (inbox e k))"
  shows "StatsResponse.Comments actor = comments
    \<and> StatsResponse.TotalUpvotes actor = ups
    \<and> StatsResponse.TotalDownvotes actor = downs
    \<and> StatsResponse.DirectMessages actor = dms
    \<and> (\<exists>ranked. rankedByKarma e ranked \<and> StatsResponse.TopUsers actor = take 10 ranked)
    \<and> TotalComments http = comments
    \<and> HTTPStatsResponse.TotalUpvotes http = ups
    \<and> HTTPStatsResponse.TotalDownvotes http = downs
    \<and> HTTPStatsResponse.DirectMessages http = dms
    \<and> (\<exists>ranked. rankedByKarma e ranked \<and> HTTPStatsResponse.TopUsers http = take 5 ranked)"
proof -
  note pt = postTotals_keyOrder [OF assms(1)]
  note dt = dmTotal_keyOrder [OF assms(3)]
  have a: "StatsResponse.Comments actor = comments" "StatsResponse.TotalUpvotes actor = ups"
    "StatsResponse.TotalDownvotes actor = downs" "StatsResponse.DirectMessages actor = dms"
    by (simp_all add: actor_def Receive_GetStats_def pt dt Let_def
        comments_def ups_def downs_def dms_def)
  have h: "TotalComments http = comments" "HTTPStatsResponse.TotalUpvotes http = ups"
    "HTTPStatsResponse.TotalDownvotes http = downs" "HTTPStatsResponse.DirectMessages http = dms"
    by (simp_all add: http_def handleGetStats_def pt dt Let_def
        comments_def ups_def downs_def dms_def)
  have ta: "StatsResponse.TopUsers actor =
      take 10 (sortA (\<lambda>a b. sint (UserKarma.Karma a) > sint (UserKarma.Karma b))
        (map toUserKarma (rangeUsers e userOrder [])))"
    by (simp add: actor_def Receive_GetStats_def pt Let_def)
  have th: "HTTPStatsResponse.TopUsers http =
      take 5 (map toUserKarma
        (sortH (\<lambda>a b. sint (snd a) > sint (snd b)) (rangeUsers e userOrder [])))"
    by (simp add: http_def handleGetStats_def pt Let_def top5_take take_map)
  from ta ranked_actor [OF assms(2,4)]
  have ra: "\<exists>ranked. rankedByKarma e ranked \<and> StatsResponse.TopUsers actor = take 10 ranked"
    by blast
  from th ranked_http [OF assms(2,5)]
  have rh: "\<exists>ranked. rankedByKarma e ranked \<and> HTTPStatsResponse.TopUsers http = take 5 ranked"
    by blast
  from a h ra rh show ?thesis by blast
qed

lemma statsScenario_fields:
  "posts statsScenario = [''post_4'' \<mapsto> 0, ''post_8'' \<mapsto> Suc 0]"
  "users statsScenario = [''alice'' \<mapsto> \<lparr>User.Username = ''alice'', User.Password = ''pw'',
       User.Karma = 1, User.CreatedAt = 1, User.Subreddits = {}\<rparr>,
     ''bob'' \<mapsto> \<lparr>User.Username = ''bob'', User.Password = ''pw'', User.Karma = 0,
       User.CreatedAt = 2, User.Subreddits = {''science''}\<rparr>]"
  "dom (subreddits statsScenario) = {''science''}"
  "directMessages statsScenario =
     [''bob'' \<mapsto> [DirectMessage ''dm_6'' ''alice'' ''bob'' ''hi'' 7 []]]"
  "Post.Votes (postHeap statsScenario 0) = 2"
  "Post.Comments (postHeap statsScenario 0) =
     [Comment ''comment_20'' ''first'' ''bob'' [] 21 0
        [Comment ''comment_22'' ''second'' ''alice'' ''comment_20'' 23 0 []]]"
  "Post.Votes (postHeap statsScenario (Suc 0)) = - 1"
  "Post.Comments (postHeap statsScenario (Suc 0)) = []"
proof -
  define e1 where "e1 = snd (CreatePost commentScenario ''T'' ''B'' ''ghost'' ''science'' 8 9)"
  have c: "users commentScenario = users scenario"
    "subreddits commentScenario = subreddits scenario"
    "directMessages commentScenario = directMessages scenario"
    "nextPost commentScenario = nextPost scenario"
    "Post.Votes (postHeap commentScenario 0) = 0"
    "Post.Author (postHeap commentScenario 0) = ''alice''"
    by (simp_all add: commentScenario_def AddComment_def scenario_fields fmt_d_20 Let_def)
  have e1: "posts e1 = [''post_4'' \<mapsto> 0, ''post_8'' \<mapsto> Suc 0]"
    "users e1 = users scenario" "dom (subreddits e1) = {''science''}"
    "directMessages e1 = Map.empty"
    "Post.Votes (postHeap e1 0) = 0" "Post.Author (postHeap e1 0) = ''alice''"
    "Post.Comments (postHeap e1 0) = Post.Comments (postHeap commentScenario 0)"
    "Post.Votes (postHeap e1 (Suc 0)) = 0" "Post.Author (postHeap e1 (Suc 0)) = ''ghost''"
    "Post.Comments (postHeap e1 (Suc 0)) = []"
    by (simp_all add: e1_def CreatePost_def c commentScenario_fields scenario_fields fmt_d_8 Let_def)
  have s: "statsScenario = snd (SendDirectMessage
       (snd (VotePost (snd (VotePost e1 ''post_4'' True)) ''post_8'' False))
       ''alice'' ''bob'' ''hi'' 6 7)"
    by (simp add: statsScenario_def e1_def)
  show "posts statsScenario = [''post_4'' \<mapsto> 0, ''post_8'' \<mapsto> Suc 0]"
    "users statsScenario = [''alice'' \<mapsto> \<lparr>User.Username = ''alice'', User.Password = ''pw'',
       User.Karma = 1, User.CreatedAt = 1, User.Subreddits = {}\<rparr>,
     ''bob'' \<mapsto> \<lparr>User.Username = ''bob'', User.Password = ''pw'', User.Karma = 0,
       User.CreatedAt = 2, User.Subreddits = {''science''}\<rparr>]"
    "dom (subreddits statsScenario) = {''science''}"
    "directMessages statsScenario =
       [''bob'' \<mapsto> [DirectMessage ''dm_6'' ''alice'' ''bob'' ''hi'' 7 []]]"
    "Post.Votes (postHeap statsScenario 0) = 2"
    "Post.Comments (postHeap statsScenario 0) =
       [Comment ''comment_20'' ''first'' ''bob'' [] 21 0
          [Comment ''comment_22'' ''second'' ''alice'' ''comment_20'' 23 0 []]]"
    "Post.Votes (postHeap statsScenario (Suc 0)) = - 1"
    "Post.Comments (postHeap statsScenario (Suc 0)) = []"
    unfolding s
    by (auto simp: SendDirectMessage_def VotePost_def updateKarma_def e1 scenario_fields
        commentScenario_fields fmt_d_6 Let_def)
qed

lemma stats_statsScenario:
  "Receive_GetStats insertionSort [''post_4'', ''post_8''] [''bob'', ''alice''] [''bob'']
     statsScenario =
   \<lparr>Users = 2, StatsResponse.Subreddits = 1, StatsResponse.Posts = 2,
    StatsResponse.Comments = 2, StatsResponse.DirectMessages = 1,
    StatsResponse.TotalUpvotes = 2, StatsResponse.TotalDownvotes = 1,
    StatsResponse.TopUsers =
      [\<lparr>UserKarma.Username = ''alice'', UserKarma.Karma = 1\<rparr>,
       \<lparr>UserKarma.Username = ''bob'', UserKarma.Karma = 0\<rparr>]\<rparr>"
  "handleGetStats insertionSort [''post_8'', ''post_4''] [''bob'', ''alice''] [''bob'']
     statsScenario =
   \<lparr>TotalUsers = 2, TotalSubreddits = 1, TotalPosts = 2, TotalComments = 2,
    HTTPStatsResponse.DirectMessages = 1, HTTPStatsResponse.TotalUpvotes = 2,
    HTTPStatsResponse.TotalDownvotes = 1,
    HTTPStatsResponse.TopUsers =
      [\<lparr>UserKarma.Username = ''alice'', UserKarma.Karma = 1\<rparr>,
       \<lparr>UserKarma.Username = ''bob'', UserKarma.Karma = 0\<rparr>]\<rparr>"
  by (simp_all add: Receive_GetStats_def handleGetStats_def statsScenario_fields
      insertionSort_def toUserKarma_def top5.simps Let_def)

theorem stats_computation_witness:
  "keyOrder [''post_4'', ''post_8''] (posts statsScenario)
   \<and> keyOrder [''bob'', ''alice''] (users statsScenario)
   \<and> keyOrder [''bob''] (directMessages statsScenario)
   \<and> sortContract insertionSort
        (\<lambda>a b. sint (UserKarma.Karma a) > sint (UserKarma.Karma b))
   \<and> sortContract insertionSort
        (\<lambda>a b. sint (snd a) > sint (snd (b :: string \<times> go_int)))
   \<and> StatsResponse.Comments (Receive_GetStats insertionSort [''post_4'', ''post_8'']
        [''bob'', ''alice''] [''bob''] statsScenario) = 2
   \<and> StatsResponse.TotalUpvotes (Receive_GetStats insertionSort [''post_4'', ''post_8'']
        [''bob'', ''alice''] [''bob''] statsScenario) = 2
   \<and> StatsResponse.TotalDownvotes (Receive_GetStats insertionSort [''post_4'', ''post_8'']
        [''bob'', ''alice''] [''bob''] statsScenario) = 1
   \<and> HTTPStatsResponse.DirectMessages (handleGetStats insertionSort [''post_4'', ''post_8'']
        [''bob'', ''alice''] [''bob''] statsScenario) = 1
   \<and> StatsResponse.TopUsers (Receive_GetStats insertionSort [''post_4'', ''post_8'']
        [''bob'', ''alice''] [''bob''] statsScenario) =
       [\<lparr>UserKarma.Username = ''alice'', UserKarma.Karma = 1\<rparr>,
        \<lparr>UserKarma.Username = ''bob'', UserKarma.Karma = 0\<rparr>]"
proof -
  have k: "keyOrder [''post_4'', ''post_8''] (posts statsScenario)"
    "keyOrder [''bob'', ''alice''] (users statsScenario)"
    "keyOrder [''bob''] (directMessages statsScenario)"
    by (auto simp: keyOrder_def statsScenario_fields)
  have c: "sortContract insertionSort
        (\<lambda>a b. sint (UserKarma.Karma a) > sint (UserKarma.Karma b))"
    "sortContract insertionSort (\<lambda>a b. sint (snd a) > sint (snd (b :: string \<times> go_int)))"
    by (rule insertionSort_contract)+
  have d: "dom (posts statsScenario) = {''post_4'', ''post_8''}"
    "dom (directMessages statsScenario) = {''bob''}"
    by (auto simp: statsScenario_fields)
  have p: "postAt statsScenario ''post_4'' = postHeap statsScenario 0"
    "postAt statsScenario ''post_8'' = postHeap statsScenario (Suc 0)"
    by (simp_all add: postAt_def statsScenario_fields)
  have i: "inbox statsScenario ''bob'' = [DirectMessage ''dm_6'' ''alice'' ''bob'' ''hi'' 7 []]"
    by (simp add: inbox_def statsScenario_fields)
  have u: "{k \<in> dom (posts statsScenario). 0 < sint (Post.Votes (postAt statsScenario k))} =
      {''post_4''}"
    "{k \<in> dom (posts statsScenario). \<not> 0 < sint (Post.Votes (postAt statsScenario k))} =
      {''post_8''}"
    unfolding d by (auto simp: p statsScenario_fields)
  note t = stats_computation [OF k c, unfolded u]
  from t have "StatsResponse.Comments (Receive_GetStats insertionSort [''post_4'', ''post_8'']
        [''bob'', ''alice''] [''bob''] statsScenario) = 2"
    "StatsResponse.TotalUpvotes (Receive_GetStats insertionSort [''post_4'', ''post_8'']
        [''bob'', ''alice''] [''bob''] statsScenario) = 2"
    "StatsResponse.TotalDownvotes (Receive_GetStats insertionSort [''post_4'', ''post_8'']
        [''bob'', ''alice''] [''bob''] statsScenario) = 1"
    "HTTPStatsResponse.DirectMessages (handleGetStats insertionSort [''post_4'', ''post_8'']
        [''bob'', ''alice''] [''bob''] statsScenario) = 1"
    by (simp_all add: d p i statsScenario_fields)
  with k c stats_statsScenario(1) show ?thesis
    by simp
qed

end
